theory Spec2Isabelle
  imports Main "HOL-Library.FSet" "HOL-Library.Product_Lexorder" "HOL-Library.AList"
begin

section \<open>Bomb equations\<close>

text \<open>
  The solver of \<^verbatim>\<open>sweeper.py\<close>. A tile is a pair (row, column) of Python integers. A
  \<^verbatim>\<open>BombEquation\<close> holds a frozenset of tiles and a tuple of admissible bomb counts. The
  frozenset is a finite set; where the source iterates over it, the order is the one of the
  hash table, which Python leaves unspecified, and the embedding enumerates the tiles in
  ascending order (\<open>tile_list\<close>). Every raise of the source is a value of \<open>error\<close>.
\<close>

type_synonym tile = "int \<times> int"

datatype error = IndexError | KeyError | ValueError

record BombEquation =
  tiles :: "tile fset"
  bombs :: "int list"

definition new_BombEquation :: "tile list \<Rightarrow> int list \<Rightarrow> BombEquation" where
  "new_BombEquation ts bs =
     (let T = fset_of_list ts; num_tiles = int (fcard T)
      in \<lparr>tiles = T, bombs = filter (\<lambda>bomb_num. 0 \<le> bomb_num \<and> bomb_num \<le> num_tiles) bs\<rparr>)"

definition tile_list :: "tile fset \<Rightarrow> tile list" where
  "tile_list T = sorted_list_of_fset T"

definition le_eq :: "BombEquation \<Rightarrow> BombEquation \<Rightarrow> bool" where
  "le_eq self other \<longleftrightarrow> tiles self |\<subseteq>| tiles other \<and> length (bombs self) = 1"

definition sub_eq :: "BombEquation \<Rightarrow> BombEquation \<Rightarrow> error + BombEquation" where
  "sub_eq self other =
     (case bombs other of
        [] \<Rightarrow> Inl IndexError
      | other_bomb_num # _ \<Rightarrow>
          Inr (new_BombEquation (tile_list (tiles self |-| tiles other))
                 (map (\<lambda>self_bomb_num. self_bomb_num - other_bomb_num) (bombs self))))"

definition is_trivial :: "BombEquation \<Rightarrow> bool" where
  "is_trivial self \<longleftrightarrow> fcard (tiles self) = length (bombs self) \<and> length (bombs self) = 1"

definition is_splittable :: "BombEquation \<Rightarrow> bool" where
  "is_splittable self \<longleftrightarrow>
     fcard (tiles self) \<noteq> 1 \<and>
     ((length (bombs self) = 1 \<and> (hd (bombs self) = 0 \<or> hd (bombs self) = int (fcard (tiles self))))
      \<or> length (bombs self) = fcard (tiles self) + 1)"

definition split :: "BombEquation \<Rightarrow> error + BombEquation list" where
  "split self =
     (if length (bombs self) > 1
      then Inr (map (\<lambda>tile. new_BombEquation [tile] [0, 1]) (tile_list (tiles self)))
      else (case bombs self of
              [] \<Rightarrow> Inl IndexError
            | b # _ \<Rightarrow> let bomb = (if b \<noteq> 0 then 1 else 0)
                       in Inr (map (\<lambda>tile. new_BombEquation [tile] [bomb]) (tile_list (tiles self)))))"

definition is_impossible :: "BombEquation \<Rightarrow> bool" where
  "is_impossible self \<longleftrightarrow> bombs self = []"

fun scan_constraints ::
  "BombEquation \<Rightarrow> BombEquation list \<Rightarrow> BombEquation list \<Rightarrow> BombEquation list
     \<Rightarrow> error + (bool \<times> BombEquation list \<times> BombEquation list)" where
  "scan_constraints new_bomb_eq [] new_bomb_eqs updated_constraints =
     Inr (True, new_bomb_eqs, updated_constraints)"
| "scan_constraints new_bomb_eq (old_bomb_eq # rest) new_bomb_eqs updated_constraints =
     (if new_bomb_eq = old_bomb_eq then Inr (False, new_bomb_eqs, updated_constraints)
      else if le_eq new_bomb_eq old_bomb_eq then
        (case sub_eq old_bomb_eq new_bomb_eq of
           Inl e \<Rightarrow> Inl e
         | Inr d \<Rightarrow> scan_constraints new_bomb_eq rest (new_bomb_eqs @ [d])
                     (updated_constraints @ [old_bomb_eq]))
      else if le_eq old_bomb_eq new_bomb_eq then
        (case sub_eq new_bomb_eq old_bomb_eq of
           Inl e \<Rightarrow> Inl e
         | Inr d \<Rightarrow> Inr (False, new_bomb_eqs @ [d], updated_constraints))
      else scan_constraints new_bomb_eq rest new_bomb_eqs updated_constraints)"

partial_function (option) integrate_new_bomb_eqs ::
  "BombEquation list \<Rightarrow> BombEquation list \<Rightarrow> (error + bool \<times> BombEquation list) option" where
  "integrate_new_bomb_eqs constraints new_bomb_eqs =
     (if new_bomb_eqs = [] then Some (Inr (True, constraints))
      else
        let new_bomb_eq = last new_bomb_eqs; new_bomb_eqs = butlast new_bomb_eqs in
        if is_impossible new_bomb_eq then Some (Inr (False, constraints))
        else if is_splittable new_bomb_eq then
          (case split new_bomb_eq of
             Inl e \<Rightarrow> Some (Inl e)
           | Inr parts \<Rightarrow> integrate_new_bomb_eqs constraints (new_bomb_eqs @ parts))
        else
          (case scan_constraints new_bomb_eq constraints new_bomb_eqs [] of
             Inl e \<Rightarrow> Some (Inl e)
           | Inr (add_new_bomb_eq, new_bomb_eqs, updated_constraints) \<Rightarrow>
               let constraints = fold remove1 updated_constraints constraints;
                   constraints = (if add_new_bomb_eq then constraints @ [new_bomb_eq] else constraints)
               in integrate_new_bomb_eqs constraints new_bomb_eqs))"

declare integrate_new_bomb_eqs.simps [code]

section \<open>Solutions\<close>

type_synonym frequency = "(tile \<times> int) list"
type_synonym Solution = "(int \<times> frequency \<times> int) list"

definition dict_get :: "('k \<times> 'v) list \<Rightarrow> 'k \<Rightarrow> 'v \<Rightarrow> 'v" where
  "dict_get d k dflt = (case map_of d k of None \<Rightarrow> dflt | Some v \<Rightarrow> v)"

definition comb :: "int \<Rightarrow> int \<Rightarrow> int" where
  "comb n k = (if k < 0 \<or> k > n then 0 else int (nat n choose nat k))"

definition add_instances :: "frequency \<Rightarrow> frequency \<Rightarrow> frequency" where
  "add_instances bomb_instances other_bomb_instances =
     fold (\<lambda>(tile, bomb_count) bomb_instances.
             AList.update tile (dict_get bomb_instances tile 0 + bomb_count) bomb_instances)
          other_bomb_instances bomb_instances"

definition iadd :: "Solution \<Rightarrow> Solution \<Rightarrow> Solution" where
  "iadd self other =
     (if self = [] then other
      else fold (\<lambda>(other_num_bombs, other_bomb_instances, other_num_layouts) self.
                   let (bomb_instances, num_layouts) = dict_get self other_num_bombs ([], 0)
                   in AList.update other_num_bombs
                        (add_instances bomb_instances other_bomb_instances,
                         num_layouts + other_num_layouts) self)
                other self)"

definition scale_instances :: "frequency \<Rightarrow> int \<Rightarrow> frequency \<Rightarrow> frequency" where
  "scale_instances bomb_instances factor new_bomb_instances =
     fold (\<lambda>(tile, bomb_count) new_bomb_instances.
             AList.update tile (bomb_count * factor) new_bomb_instances)
          bomb_instances new_bomb_instances"

definition mul :: "Solution \<Rightarrow> Solution \<Rightarrow> Solution" where
  "mul self other =
     fold (\<lambda>(num_bombs, bomb_instances, num_layouts).
        fold (\<lambda>(other_num_bombs, other_bomb_instances, other_num_layouts) result_solution.
                let new_bomb_instances =
                      scale_instances other_bomb_instances num_layouts
                        (scale_instances bomb_instances other_num_layouts [])
                in iadd result_solution
                     [(num_bombs + other_num_bombs, new_bomb_instances,
                       num_layouts * other_num_layouts)])
             other)
       self []"

type_synonym area = "BombEquation list \<times> tile fset"

fun replace1 :: "'a \<Rightarrow> 'a \<Rightarrow> 'a list \<Rightarrow> 'a list" where
  "replace1 x y [] = []"
| "replace1 x y (z # zs) = (if z = x then y # zs else z # replace1 x y zs)"

definition group_constraint :: "BombEquation \<Rightarrow> area list \<Rightarrow> area list" where
  "group_constraint bomb_eq grouped_constraints =
     (let tiles_in_common =
            filter (\<lambda>(constraints, tiles'). tiles bomb_eq |\<inter>| tiles' \<noteq> {||}) grouped_constraints
      in case tiles_in_common of
           [] \<Rightarrow> grouped_constraints @ [([bomb_eq], tiles bomb_eq)]
         | first # others \<Rightarrow>
             let first_constraints =
                   fold (\<lambda>(constraints, tiles') acc. acc @ constraints) others (fst first) @ [bomb_eq];
                 first_tiles =
                   fold (\<lambda>(constraints, tiles') acc. acc |\<union>| tiles') others (snd first)
                     |\<union>| tiles bomb_eq
             in fold remove1 (rev others)
                  (replace1 first (first_constraints, first_tiles) grouped_constraints))"

definition group_constraints :: "BombEquation list \<Rightarrow> BombEquation list list" where
  "group_constraints constraints = map fst (fold group_constraint constraints [])"

definition find_tile_to_recurse_on :: "BombEquation list \<Rightarrow> tile" where
  "find_tile_to_recurse_on constraints =
     fst (fold (\<lambda>constraint. fold (\<lambda>tile (tile_to_return, tile_counts).
                  let tile_count = dict_get tile_counts tile 0 + 1;
                      tile_counts = AList.update tile tile_count tile_counts
                  in (if tile_count > dict_get tile_counts tile_to_return 0 then tile else tile_to_return,
                      tile_counts))
                (tile_list (tiles constraint)))
           constraints ((-1, -1), [((-1, -1), 0 :: int)]))"

definition list_remove :: "'a \<Rightarrow> 'a list \<Rightarrow> error + 'a list" where
  "list_remove x xs = (if x \<in> set xs then Inr (remove1 x xs) else Inl ValueError)"

definition solve_single :: "BombEquation \<Rightarrow> Solution" where
  "solve_single only_constraint =
     (let num_tiles = int (fcard (tiles only_constraint))
      in fold (\<lambda>bombs solution_so_far.
                 iadd solution_so_far
                   [(bombs,
                     map (\<lambda>tile. (tile, comb (num_tiles - 1) (bombs - 1)))
                       (tile_list (tiles only_constraint)),
                     comb num_tiles bombs)])
           (bombs only_constraint) [])"

fun combine_groups :: "Solution \<Rightarrow> (error + Solution) option list \<Rightarrow> (error + Solution) option" where
  "combine_groups solution_so_far [] = Some (Inr solution_so_far)"
| "combine_groups solution_so_far (None # rest) = None"
| "combine_groups solution_so_far (Some (Inl e) # rest) = Some (Inl e)"
| "combine_groups solution_so_far (Some (Inr group_solution) # rest) =
     combine_groups (mul solution_so_far group_solution) rest"

fun solve_area :: "nat \<Rightarrow> BombEquation list \<Rightarrow> (error + Solution) option" where
  "solve_area 0 constraints = None"
| "solve_area (Suc depth) constraints =
     (if constraints = [] then Some (Inr [(0, [], 1)])
      else if length constraints = 1 then Some (Inr (solve_single (hd constraints)))
      else
        combine_groups [(0, [], 1)]
          (map (\<lambda>constraint_group.
             let recurse_tile = find_tile_to_recurse_on constraint_group;
                 branch = (\<lambda>bomb group_solution.
                   let new_bomb_eq = new_BombEquation [recurse_tile] [bomb]
                   in case integrate_new_bomb_eqs constraint_group [new_bomb_eq] of
                        None \<Rightarrow> None
                      | Some (Inl e) \<Rightarrow> Some (Inl e)
                      | Some (Inr (False, constraint_group_copy)) \<Rightarrow> Some (Inr group_solution)
                      | Some (Inr (True, constraint_group_copy)) \<Rightarrow>
                          (case list_remove new_bomb_eq constraint_group_copy of
                             Inl e \<Rightarrow> Some (Inl e)
                           | Inr constraint_group_copy \<Rightarrow>
                               (case solve_area depth constraint_group_copy of
                                  None \<Rightarrow> None
                                | Some (Inl e) \<Rightarrow> Some (Inl e)
                                | Some (Inr sub_solution) \<Rightarrow>
                                    Some (Inr (iadd group_solution
                                      (mul [(bomb, [(recurse_tile, bomb)], 1)] sub_solution))))))
             in case branch 0 [] of
                  None \<Rightarrow> None
                | Some (Inl e) \<Rightarrow> Some (Inl e)
                | Some (Inr group_solution) \<Rightarrow> branch 1 group_solution)
           (group_constraints constraints)))"


section \<open>The Sweeper\<close>

datatype version = Classic | Thrill_Digger

definition BOMB_KEY :: "version \<Rightarrow> (string \<times> int list) list" where
  "BOMB_KEY v =
     (case v of
        Classic \<Rightarrow> [(''0'', [0]), (''1'', [1]), (''2'', [2]), (''3'', [3]), (''4'', [4]),
                    (''5'', [5]), (''6'', [6]), (''7'', [7]), (''8'', [8])]
      | Thrill_Digger \<Rightarrow> [(''Green'', [0]), (''Blue'', [1, 2]), (''Red'', [3, 4]),
                          (''Silver'', [5, 6]), (''Gold'', [7, 8])])"

record Sweeper =
  version :: version
  height :: int
  width :: int
  bombs :: int
  board :: "string list list"
  constraints :: "BombEquation list"
  unconstrained_tiles :: "tile list"
  message :: string

definition all_tiles :: "int \<Rightarrow> int \<Rightarrow> tile list" where
  "all_tiles h w = concat (map (\<lambda>i. map (\<lambda>j. (i, j)) [0..w - 1]) [0..h - 1])"

definition empty_board :: "int \<Rightarrow> int \<Rightarrow> string list list" where
  "empty_board h w = replicate (nat h) (replicate (nat w) [])"

definition reset :: "Sweeper \<Rightarrow> Sweeper" where
  "reset self = self\<lparr>board := empty_board (height self) (width self), constraints := [],
                     unconstrained_tiles := all_tiles (height self) (width self), message := []\<rparr>"

definition new_Sweeper :: "version \<Rightarrow> Sweeper" where
  "new_Sweeper v =
     (case v of
        Classic \<Rightarrow> \<lparr>version = v, height = 9, width = 9, bombs = 10, board = empty_board 9 9,
                     constraints = [], unconstrained_tiles = all_tiles 9 9, message = []\<rparr>
      | Thrill_Digger \<Rightarrow> \<lparr>version = v, height = 4, width = 5, bombs = 4, board = empty_board 4 5,
                     constraints = [], unconstrained_tiles = all_tiles 4 5, message = []\<rparr>)"

definition set_custom :: "Sweeper \<Rightarrow> int \<Rightarrow> int \<Rightarrow> int \<Rightarrow> Sweeper" where
  "set_custom self h w b = reset (self\<lparr>height := h, width := w, bombs := b\<rparr>)"

definition return_neighbours :: "int \<Rightarrow> int \<Rightarrow> int \<Rightarrow> int \<Rightarrow> tile list" where
  "return_neighbours row column h w =
     (if row > 0 then
        (if column > 0 then [(row - 1, column - 1)] else [])
        @ [(row - 1, column)]
        @ (if column < w - 1 then [(row - 1, column + 1)] else [])
      else [])
     @ (if column > 0 then [(row, column - 1)] else [])
     @ (if column < w - 1 then [(row, column + 1)] else [])
     @ (if row < h - 1 then
          (if column > 0 then [(row + 1, column - 1)] else [])
          @ [(row + 1, column)]
          @ (if column < w - 1 then [(row + 1, column + 1)] else [])
        else [])"

definition py_index :: "'a list \<Rightarrow> int \<Rightarrow> error + nat" where
  "py_index xs i =
     (let n = int (length xs); j = (if i < 0 then n + i else i)
      in if 0 \<le> j \<and> j < n then Inr (nat j) else Inl IndexError)"

definition board_get :: "string list list \<Rightarrow> int \<Rightarrow> int \<Rightarrow> error + string" where
  "board_get b row column =
     (case py_index b row of
        Inl e \<Rightarrow> Inl e
      | Inr r \<Rightarrow> (case py_index (b ! r) column of
                    Inl e \<Rightarrow> Inl e
                  | Inr c \<Rightarrow> Inr (b ! r ! c)))"

definition board_set :: "string list list \<Rightarrow> int \<Rightarrow> int \<Rightarrow> string \<Rightarrow> error + string list list" where
  "board_set b row column info =
     (case py_index b row of
        Inl e \<Rightarrow> Inl e
      | Inr r \<Rightarrow> (case py_index (b ! r) column of
                    Inl e \<Rightarrow> Inl e
                  | Inr c \<Rightarrow> Inr (b[r := (b ! r)[c := info]])))"

definition remove_if_present :: "'a \<Rightarrow> 'a list \<Rightarrow> 'a list" where
  "remove_if_present x xs = (if x \<in> set xs then remove1 x xs else xs)"

definition integrate_new_info ::
  "Sweeper \<Rightarrow> int \<Rightarrow> int \<Rightarrow> string \<Rightarrow> (error + Sweeper) option" where
  "integrate_new_info self row column info =
     (case board_set (board self) row column info of
        Inl e \<Rightarrow> Some (Inl e)
      | Inr b \<Rightarrow>
          let self = self\<lparr>board := b\<rparr>; tile = (row, column) in
          (case map_of (BOMB_KEY (version self)) info of
             Some bomb_nums \<Rightarrow>
               let neighbours = return_neighbours row column (height self) (width self);
                   self = self\<lparr>unconstrained_tiles :=
                            fold remove_if_present neighbours
                              (remove_if_present tile (unconstrained_tiles self))\<rparr>
               in (case integrate_new_bomb_eqs (constraints self)
                          [new_BombEquation [tile] [0], new_BombEquation neighbours bomb_nums] of
                     None \<Rightarrow> None
                   | Some (Inl e) \<Rightarrow> Some (Inl e)
                   | Some (Inr (ok, cs)) \<Rightarrow>
                       Some (Inr (if ok then self\<lparr>constraints := cs\<rparr>
                                  else self\<lparr>constraints := cs, message := ''Impossible layout''\<rparr>)))
           | None \<Rightarrow>
               if info = ''B'' \<or> info = ''Rupoor'' then
                 let self = self\<lparr>unconstrained_tiles :=
                              remove_if_present tile (unconstrained_tiles self)\<rparr>
                 in (case integrate_new_bomb_eqs (constraints self) [new_BombEquation [tile] [1]] of
                       None \<Rightarrow> None
                     | Some (Inl e) \<Rightarrow> Some (Inl e)
                     | Some (Inr (ok, cs)) \<Rightarrow>
                         Some (Inr (if ok then self\<lparr>constraints := cs\<rparr>
                                    else self\<lparr>constraints := cs, message := ''Impossible layout''\<rparr>)))
               else Some (Inr self)))"

definition calculate_bomb_fractions :: "Sweeper \<Rightarrow> Solution \<Rightarrow> error + frequency \<times> int" where
  "calculate_bomb_fractions self solution =
     (let num_unconstrained_tiles = int (length (unconstrained_tiles self));
          (bomb_instances, num_layouts) =
            fold (\<lambda>(num_bombs, partial_bomb_instances, partial_num_layouts) (bomb_instances, num_layouts).
                    let num_unconstrained_tile_layouts =
                          comb num_unconstrained_tiles (bombs self - num_bombs);
                        bomb_instances =
                          fold (\<lambda>(tile, bomb_occurences) bomb_instances.
                                  AList.update tile
                                    (dict_get bomb_instances tile 0
                                       + bomb_occurences * num_unconstrained_tile_layouts)
                                    bomb_instances)
                               partial_bomb_instances bomb_instances;
                        bomb_instances =
                          AList.update (-1, -1)
                            (dict_get bomb_instances (-1, -1) 0
                               + partial_num_layouts
                                 * comb (num_unconstrained_tiles - 1) (bombs self - num_bombs - 1))
                            bomb_instances
                    in (bomb_instances, num_layouts + partial_num_layouts * num_unconstrained_tile_layouts))
                 solution ([], 0)
      in case map_of bomb_instances (-1, -1) of
           None \<Rightarrow> Inl KeyError
         | Some unconstrained_tile_instances \<Rightarrow>
             Inr (fold (\<lambda>unconstrained_tile bomb_instances.
                          AList.update unconstrained_tile unconstrained_tile_instances bomb_instances)
                       (unconstrained_tiles self) (AList.delete (-1, -1) bomb_instances),
                  num_layouts))"

fun str_nat :: "nat \<Rightarrow> string" where
  "str_nat n = (if n < 10 then [char_of (48 + n)] else str_nat (n div 10) @ [char_of (48 + n mod 10)])"

definition str_int :: "int \<Rightarrow> string" where
  "str_int i = (if i < 0 then CHR ''-'' # str_nat (nat (- i)) else str_nat (nat i))"

definition round_half_even :: "int \<Rightarrow> int \<Rightarrow> int" where
  "round_half_even a b =
     (let q = a div b; r = a mod b
      in if 2 * \<bar>r\<bar> < \<bar>b\<bar> then q
         else if 2 * \<bar>r\<bar> > \<bar>b\<bar> then q + 1
         else if even q then q else q + 1)"

definition percent :: "int \<Rightarrow> int \<Rightarrow> string" where
  "percent m n = str_int (round_half_even (100 * m) n) @ ''%''"

fun process_tiles ::
  "version \<Rightarrow> frequency \<Rightarrow> int \<Rightarrow> tile list
     \<Rightarrow> string list list \<times> BombEquation list \<times> tile list
     \<Rightarrow> error + string list list \<times> BombEquation list \<times> tile list" where
  "process_tiles v bomb_instances total_num_layouts [] st = Inr st"
| "process_tiles v bomb_instances total_num_layouts (tile # rest) (b, consistent_tiles, unconstrained) =
     (let (row, column) = tile; count = dict_get bomb_instances tile 0 in
      if count = 0 then
        (case board_get b row column of
           Inl e \<Rightarrow> Inl e
         | Inr label \<Rightarrow>
             if map_of (BOMB_KEY v) label = None then
               (case board_set b row column ''S'' of
                  Inl e \<Rightarrow> Inl e
                | Inr b \<Rightarrow> process_tiles v bomb_instances total_num_layouts rest
                            (b, consistent_tiles @ [new_BombEquation [tile] [0]],
                             remove_if_present tile unconstrained))
             else process_tiles v bomb_instances total_num_layouts rest (b, consistent_tiles, unconstrained))
      else if count = total_num_layouts then
        (case board_get b row column of
           Inl e \<Rightarrow> Inl e
         | Inr label \<Rightarrow>
             (case (if label \<noteq> ''B'' \<and> label \<noteq> ''Rupoor'' then board_set b row column ''B/R'' else Inr b) of
                Inl e \<Rightarrow> Inl e
              | Inr b \<Rightarrow> process_tiles v bomb_instances total_num_layouts rest
                          (b, consistent_tiles @ [new_BombEquation [tile] [1]],
                           remove_if_present tile unconstrained)))
      else
        (case board_set b row column (percent count total_num_layouts) of
           Inl e \<Rightarrow> Inl e
         | Inr b \<Rightarrow> process_tiles v bomb_instances total_num_layouts rest (b, consistent_tiles, unconstrained)))"

definition process_bomb_fractions :: "Sweeper \<Rightarrow> frequency \<Rightarrow> int \<Rightarrow> (error + Sweeper) option" where
  "process_bomb_fractions self bomb_instances total_num_layouts =
     (if total_num_layouts = 0 then Some (Inr (self\<lparr>message := ''Impossible layout''\<rparr>))
      else
        (case process_tiles (version self) bomb_instances total_num_layouts (map fst bomb_instances)
                (board self, [], unconstrained_tiles self) of
           Inl e \<Rightarrow> Some (Inl e)
         | Inr (b, consistent_tiles, unconstrained) \<Rightarrow>
             (case integrate_new_bomb_eqs (constraints self) consistent_tiles of
                None \<Rightarrow> None
              | Some (Inl e) \<Rightarrow> Some (Inl e)
              | Some (Inr (ok, cs)) \<Rightarrow>
                  Some (Inr (self\<lparr>board := b, unconstrained_tiles := unconstrained,
                                  constraints := cs\<rparr>)))))"

definition calculate_board :: "nat \<Rightarrow> Sweeper \<Rightarrow> (error + Sweeper) option" where
  "calculate_board depth self =
     (case solve_area depth (constraints self) of
        None \<Rightarrow> None
      | Some (Inl e) \<Rightarrow> Some (Inl e)
      | Some (Inr solution) \<Rightarrow>
          (case calculate_bomb_fractions self solution of
             Inl e \<Rightarrow> Some (Inl e)
           | Inr (bomb_instances, denominator) \<Rightarrow>
               process_bomb_fractions self bomb_instances denominator))"


section \<open>Notions used to state the properties\<close>

text \<open>
  A caller such as \<^verbatim>\<open>SweeperWindow.receive_input\<close> makes a sequence of calls of
  \<^verbatim>\<open>integrate_new_info\<close>; the sequence stops at the first call that does not return.
\<close>

definition integrate_all :: "Sweeper \<Rightarrow> (int \<times> int \<times> string) list \<Rightarrow> (error + Sweeper) option" where
  "integrate_all self observations =
     fold (\<lambda>(row, column, info) state.
             case state of
               Some (Inr self) \<Rightarrow> integrate_new_info self row column info
             | _ \<Rightarrow> state)
          observations (Some (Inr self))"

text \<open>The part of the store invariant of the specification that the integrator maintains.\<close>

definition store_ok :: "BombEquation list \<Rightarrow> bool" where
  "store_ok store \<longleftrightarrow>
     distinct store \<and> (\<forall>e \<in> set store. \<not> is_splittable e \<and> \<not> is_impossible e)"

text \<open>The board, the constraint store and the unconstrained set of a Sweeper.\<close>

definition view :: "Sweeper \<Rightarrow> string list list \<times> BombEquation list \<times> tile list" where
  "view self = (board self, constraints self, unconstrained_tiles self)"

text \<open>
  A bomb placement is the set \<open>S\<close> of the tiles that hold a bomb; it satisfies an equation
  when the number of bombs among the equation's tiles is one of the equation's counts.
\<close>

definition satisfies :: "tile set \<Rightarrow> BombEquation \<Rightarrow> bool" where
  "satisfies S e \<longleftrightarrow> int (card (S \<inter> fset (tiles e))) \<in> set (BombEquation.bombs e)"

text \<open>
  A Solution is a Python dict of dicts. Two Solutions are equal for \<^verbatim>\<open>Solution.__eq__\<close> when they
  are equal as maps, whatever the insertion order: \<open>sol_map\<close> is that map. A list stands
  for a dict when no key occurs twice (\<open>wf_solution\<close>). \<open>solution_tiles\<close> is the tile
  domain of a Solution. For a bomb total \<open>k\<close>, \<open>cnt s k\<close> is the layout count \<open>N\<^sub>k\<close>,
  \<open>frq s k t\<close> the frequency \<open>F\<^sub>k[t]\<close> and \<open>sol_tiles s k\<close> the domain of \<open>F\<^sub>k\<close>, with 0 and
  the empty set where the Solution has no entry. The remaining definitions name the loop
  bodies of \<^verbatim>\<open>__iadd__\<close> and \<^verbatim>\<open>__mul__\<close>.
\<close>

definition sol_map :: "Solution \<Rightarrow> int \<Rightarrow> ((tile \<Rightarrow> int option) \<times> int) option" where
  "sol_map s k = map_option (\<lambda>(F, N). (map_of F, N)) (map_of s k)"

definition wf_solution :: "Solution \<Rightarrow> bool" where
  "wf_solution s \<longleftrightarrow> distinct (map fst s) \<and> (\<forall>(k, F, N) \<in> set s. distinct (map fst F))"

definition sol_keys :: "Solution \<Rightarrow> int set" where
  "sol_keys s = fst ` set s"

definition entry :: "Solution \<Rightarrow> int \<Rightarrow> frequency \<times> int" where
  "entry s k = dict_get s k ([], 0)"

definition cnt :: "Solution \<Rightarrow> int \<Rightarrow> int" where
  "cnt s k = snd (entry s k)"

definition frq :: "Solution \<Rightarrow> int \<Rightarrow> tile \<Rightarrow> int" where
  "frq s k t = dict_get (fst (entry s k)) t 0"

definition sol_tiles :: "Solution \<Rightarrow> int \<Rightarrow> tile set" where
  "sol_tiles s k = fst ` set (fst (entry s k))"

definition iadd_step :: "int \<times> frequency \<times> int \<Rightarrow> Solution \<Rightarrow> Solution" where
  "iadd_step = (\<lambda>(other_num_bombs, other_bomb_instances, other_num_layouts) self.
                   let (bomb_instances, num_layouts) = dict_get self other_num_bombs ([], 0)
                   in AList.update other_num_bombs
                        (add_instances bomb_instances other_bomb_instances,
                         num_layouts + other_num_layouts) self)"

definition mul_entry :: "frequency \<times> int \<Rightarrow> frequency \<times> int \<Rightarrow> frequency \<times> int" where
  "mul_entry e1 e2 =
     (scale_instances (fst e2) (snd e1) (scale_instances (fst e1) (snd e2) []), snd e1 * snd e2)"

definition mul_step :: "(int \<times> frequency \<times> int) \<times> (int \<times> frequency \<times> int) \<Rightarrow> Solution \<Rightarrow> Solution" where
  "mul_step p r = iadd r [(fst (fst p) + fst (snd p), mul_entry (snd (fst p)) (snd (snd p)))]"

definition pair_key :: "(int \<times> frequency \<times> int) \<times> (int \<times> frequency \<times> int) \<Rightarrow> int" where
  "pair_key p = fst (fst p) + fst (snd p)"

definition pair_entry :: "(int \<times> frequency \<times> int) \<times> (int \<times> frequency \<times> int) \<Rightarrow> frequency \<times> int" where
  "pair_entry p = mul_entry (snd (fst p)) (snd (snd p))"

definition solution_tiles :: "Solution \<Rightarrow> tile set" where
  "solution_tiles s = (\<Union>(k, F, N)\<in>set s. fst ` set F)"

section \<open>Properties of bomb equations\<close>

lemma tile_list_set [simp]: "fset_of_list (tile_list T) = T"
  by (simp add: tile_list_def fset_of_list.rep_eq sorted_list_of_fset.rep_eq fset_eqI)

lemma new_BombEquation_tiles [simp]: "tiles (new_BombEquation ts bs) = fset_of_list ts"
  by (simp add: new_BombEquation_def Let_def)

lemma new_BombEquation_bombs:
  "BombEquation.bombs (new_BombEquation ts bs) =
     filter (\<lambda>b. 0 \<le> b \<and> b \<le> int (fcard (fset_of_list ts))) bs"
  by (simp add: new_BombEquation_def Let_def)

text \<open>
  Claim C9, as amended. The constructor only filters the given counts: every count it keeps
  lies in \<open>[0, |T|]\<close>, and a strictly ascending input (ascending, no duplicates) stays
  strictly ascending. It neither sorts nor removes duplicates.
\<close>

theorem constructor_range:
  "(\<forall>b \<in> set (BombEquation.bombs (new_BombEquation ts bs)).
       0 \<le> b \<and> b \<le> int (fcard (tiles (new_BombEquation ts bs))))
   \<and> (sorted_wrt (<) bs \<longrightarrow> sorted_wrt (<) (BombEquation.bombs (new_BombEquation ts bs)))"
  by (simp add: new_BombEquation_bombs sorted_wrt_filter)

theorem constructor_range_witness:
  "sorted_wrt (<) [0, 1 :: int]
   \<and> 1 \<in> set (BombEquation.bombs (new_BombEquation [(0, 0)] [0, 1]))
   \<and> (1::int) \<le> int (fcard (tiles (new_BombEquation [(0, 0)] [0, 1])))
   \<and> sorted_wrt (<) (BombEquation.bombs (new_BombEquation [(0, 0)] [0, 1]))"
  using constructor_range [of "[(0, 0)]" "[0, 1]"]
  by (simp add: new_BombEquation_bombs fcard_finsert_if)

text \<open>
  Claim C9 as stated fails: \<^verbatim>\<open>BombEquation([(0, 0), (0, 1)], [1, 0])\<close> keeps the counts in the
  order given, and \<^verbatim>\<open>BombEquation([(0, 0), (0, 1)], [1, 1])\<close> keeps the duplicate.
\<close>

theorem constructor_unsorted:
  "\<not> sorted (BombEquation.bombs (new_BombEquation [(0, 0), (0, 1)] [1, 0]))
   \<and> \<not> distinct (BombEquation.bombs (new_BombEquation [(0, 0), (0, 1)] [1, 1]))"
  by (simp add: new_BombEquation_bombs fcard_finsert_if)

text \<open>
  Claim C6. For \<open>e1 \<sqsubseteq> e2\<close> with \<open>B(e1) = [b]\<close>, the subtraction \<open>e2 - e1\<close> returns the
  equation over \<open>T(e2) \ T(e1)\<close> whose counts are the \<open>x - b\<close>, for \<open>x\<close> in \<open>B(e2)\<close>, that lie
  in \<open>[0, |T(e2)| - |T(e1)|]\<close>; its number of tiles is \<open>|T(e2)| - |T(e1)|\<close> and each of its
  counts lies between 0 and that number.
\<close>

theorem sub_eq_spec:
  assumes "le_eq e1 e2" and "BombEquation.bombs e1 = [b]"
  shows "\<exists>d. sub_eq e2 e1 = Inr d
           \<and> tiles d = tiles e2 |-| tiles e1
           \<and> BombEquation.bombs d =
               filter (\<lambda>y. 0 \<le> y \<and> y \<le> int (fcard (tiles e2)) - int (fcard (tiles e1)))
                 (map (\<lambda>x. x - b) (BombEquation.bombs e2))
           \<and> set (BombEquation.bombs d) =
               {x - b | x. x \<in> set (BombEquation.bombs e2)}
                 \<inter> {0 .. int (fcard (tiles e2)) - int (fcard (tiles e1))}
           \<and> fcard (tiles d) = fcard (tiles e2) - fcard (tiles e1)
           \<and> (\<forall>x \<in> set (BombEquation.bombs d). 0 \<le> x \<and> x \<le> int (fcard (tiles d)))"
proof -
  from assms(1) have sub: "tiles e1 |\<subseteq>| tiles e2" by (simp add: le_eq_def)
  have card: "fcard (tiles e2 |-| tiles e1) = fcard (tiles e2) - fcard (tiles e1)"
    using sub by (rule fcard_funion_fsubset)
  have le: "fcard (tiles e1) \<le> fcard (tiles e2)" using sub by (rule fcard_mono)
  have icard: "int (fcard (tiles e2 |-| tiles e1)) = int (fcard (tiles e2)) - int (fcard (tiles e1))"
    using card le by simp
  show ?thesis
    using assms(2) card icard
    by (auto simp: sub_eq_def new_BombEquation_bombs)
qed

theorem sub_eq_spec_witness:
  "le_eq (new_BombEquation [(0, 2), (1, 2)] [1]) (new_BombEquation [(0, 2), (1, 2), (2, 2)] [1])
   \<and> sub_eq (new_BombEquation [(0, 2), (1, 2), (2, 2)] [1]) (new_BombEquation [(0, 2), (1, 2)] [1])
       = Inr (new_BombEquation [(2, 2)] [0])"
proof -
  have le: "le_eq (new_BombEquation [(0, 2), (1, 2)] [1])
              (new_BombEquation [(0, 2), (1, 2), (2, 2)] [1])"
    by code_simp
  have b: "BombEquation.bombs (new_BombEquation [(0, 2), (1, 2)] [1]) = [1]"
    by code_simp
  from sub_eq_spec [OF le b] obtain d where
    "sub_eq (new_BombEquation [(0, 2), (1, 2), (2, 2)] [1]) (new_BombEquation [(0, 2), (1, 2)] [1]) = Inr d"
    by blast
  moreover have "sub_eq (new_BombEquation [(0, 2), (1, 2), (2, 2)] [1])
                   (new_BombEquation [(0, 2), (1, 2)] [1]) = Inr (new_BombEquation [(2, 2)] [0])"
    by code_simp
  ultimately show ?thesis using le by simp
qed

section \<open>The constraint integrator\<close>

lemma scan_constraints_adds:
  "scan_constraints new cs wl upd = Inr (True, wl', upd') \<Longrightarrow> new \<notin> set cs"
  by (induction new cs wl upd rule: scan_constraints.induct)
     (auto split: if_splits sum.splits)

lemma set_fold_remove1: "set (fold remove1 upd cs) \<subseteq> set cs"
proof (induction upd arbitrary: cs)
  case Nil
  then show ?case by simp
next
  case (Cons u upd)
  have "set (fold remove1 upd (remove1 u cs)) \<subseteq> set (remove1 u cs)" by (rule Cons.IH)
  also have "\<dots> \<subseteq> set cs" by (rule set_remove1_subset)
  finally show ?case by simp
qed

lemma distinct_fold_remove1: "distinct cs \<Longrightarrow> distinct (fold remove1 upd cs)"
  by (induction upd arbitrary: cs) simp_all

lemma store_ok_step:
  assumes "store_ok cs" and "\<not> is_splittable new" and "\<not> is_impossible new"
    and "add \<longrightarrow> new \<notin> set cs"
  shows "store_ok (if add then fold remove1 upd cs @ [new] else fold remove1 upd cs)"
proof -
  have sub: "set (fold remove1 upd cs) \<subseteq> set cs" by (rule set_fold_remove1)
  have dist: "distinct (fold remove1 upd cs)"
    using assms(1) by (simp add: store_ok_def distinct_fold_remove1)
  show ?thesis
    using assms sub dist by (auto simp: store_ok_def)
qed

lemma integrate_store_ok:
  assumes "integrate_new_bomb_eqs store new_bomb_eqs = Some r"
  shows "store_ok store \<longrightarrow> (\<forall>ok cs. r = Inr (ok, cs) \<longrightarrow> store_ok cs)"
proof (rule integrate_new_bomb_eqs.raw_induct
    [where P = "\<lambda>store wl r. store_ok store \<longrightarrow> (\<forall>ok cs. r = Inr (ok, cs) \<longrightarrow> store_ok cs)",
     OF _ assms], goal_cases)
  case (1 integrate store new_bomb_eqs r)
  show ?case
  proof (intro impI allI)
    fix ok cs
    assume ok: "store_ok store" and r: "r = Inr (ok, cs)"
    show "store_ok cs"
    proof (cases "new_bomb_eqs = []")
      case True
      with 1(2) r ok show ?thesis by simp
    next
      case False
      let ?new = "last new_bomb_eqs"
      show ?thesis
      proof (cases "is_impossible ?new")
        case True
        with 1(2) r ok False show ?thesis by (simp add: Let_def)
      next
        case imp: False
        show ?thesis
        proof (cases "is_splittable ?new")
          case True
          with 1(2) False imp r obtain parts where
            "integrate store (butlast new_bomb_eqs @ parts) = Some r"
            by (auto simp: Let_def split: sum.splits)
          from 1(1) [OF this] ok r show ?thesis by blast
        next
          case spl: False
          from 1(2) False imp spl r obtain add wl upd where
            scan: "scan_constraints ?new store (butlast new_bomb_eqs) [] = Inr (add, wl, upd)"
            and rec: "integrate (if add then fold remove1 upd store @ [?new]
                                 else fold remove1 upd store) wl = Some r"
            by (auto simp: Let_def split: sum.splits)
          have "add \<longrightarrow> ?new \<notin> set store"
            using scan by (cases add) (auto dest: scan_constraints_adds)
          then have "store_ok (if add then fold remove1 upd store @ [?new]
                               else fold remove1 upd store)"
            using ok spl imp by (intro store_ok_step) auto
          with 1(1) [OF rec] r show ?thesis by blast
        qed
      qed
    qed
  qed
qed

text \<open>
  Claim C2, as amended. When \<^verbatim>\<open>integrate_new_bomb_eqs\<close> returns True on a store that held no two
  equal equations, no splittable and no impossible equation, the resulting store holds
  none either. Trivial equations and single-tile equations with counts 0 and 1 are added to
  the store like any other equation.
\<close>

theorem integrate_keeps_store:
  assumes "integrate_new_bomb_eqs store new_bomb_eqs = Some (Inr (True, store'))"
    and "store_ok store"
  shows "store_ok store'"
  using integrate_store_ok [OF assms(1)] assms(2) by blast

theorem integrate_keeps_store_witness:
  "store_ok [new_BombEquation [(0, 0)] [1]]
   \<and> integrate_new_bomb_eqs [new_BombEquation [(0, 0)] [1]]
        [new_BombEquation [(0, 1)] [0], new_BombEquation [(0, 0), (0, 1), (1, 1)] [1, 2]]
       = Some (Inr (True, [new_BombEquation [(0, 0)] [1], new_BombEquation [(0, 1)] [0], new_BombEquation [(1, 1)] [0, 1]]))
   \<and> store_ok [new_BombEquation [(0, 0)] [1], new_BombEquation [(0, 1)] [0], new_BombEquation [(1, 1)] [0, 1]]"
proof -
  have ok: "store_ok [new_BombEquation [(0, 0)] [1]]" by code_simp
  have run: "integrate_new_bomb_eqs [new_BombEquation [(0, 0)] [1]]
        [new_BombEquation [(0, 1)] [0], new_BombEquation [(0, 0), (0, 1), (1, 1)] [1, 2]]
       = Some (Inr (True, [new_BombEquation [(0, 0)] [1], new_BombEquation [(0, 1)] [0], new_BombEquation [(1, 1)] [0, 1]]))"
    by code_simp
  from integrate_keeps_store [OF run ok] ok run show ?thesis by simp
qed

text \<open>
  Claim C2 as stated fails: integrating a trivial equation into the empty store returns True
  with that equation in the store; a splittable equation with every count leaves its
  single-tile parts with counts 0 and 1 in the store; and a store that held an equation twice
  keeps it twice.
\<close>

theorem integrate_keeps_trivial_and_inert:
  "integrate_new_bomb_eqs [] [new_BombEquation [(0, 0)] [0]] = Some (Inr (True, [new_BombEquation [(0, 0)] [0]]))
   \<and> is_trivial (new_BombEquation [(0, 0)] [0])
   \<and> integrate_new_bomb_eqs [] [new_BombEquation [(0, 0), (0, 1)] [0, 1, 2]]
       = Some (Inr (True, [new_BombEquation [(0, 1)] [0, 1], new_BombEquation [(0, 0)] [0, 1]]))
   \<and> integrate_new_bomb_eqs [new_BombEquation [(0, 0), (0, 1)] [1], new_BombEquation [(0, 0), (0, 1)] [1]] []
       = Some (Inr (True, [new_BombEquation [(0, 0), (0, 1)] [1], new_BombEquation [(0, 0), (0, 1)] [1]]))"
  by code_simp

section \<open>Observations\<close>

lemma py_index_in_range:
  "0 \<le> i \<Longrightarrow> i < int (length xs) \<Longrightarrow> py_index xs i = Inr (nat i)"
  by (simp add: py_index_def Let_def)

lemma board_set_in_range:
  assumes "0 \<le> row" "row < int (length b)" "0 \<le> column" "column < int (length (b ! nat row))"
  shows "board_set b row column info = Inr (b[nat row := (b ! nat row)[nat column := info]])"
  using assms by (simp add: board_set_def py_index_in_range)

text \<open>
  Claim C8, as amended. With coordinates on the board and a label that is neither in the
  bomb key of the version nor \<^verbatim>\<open>B\<close> nor \<^verbatim>\<open>Rupoor\<close>, \<^verbatim>\<open>integrate_new_info\<close> writes the label
  into \<^verbatim>\<open>board[row][column]\<close> and changes nothing else: the other cells, the constraint store,
  the unconstrained set and the message stay as they were.
\<close>

theorem unrecognised_label:
  assumes "map_of (BOMB_KEY (version self)) info = None" and "info \<noteq> ''B''" and "info \<noteq> ''Rupoor''"
    and "0 \<le> row" and "row < int (length (board self))"
    and "0 \<le> column" and "column < int (length (board self ! nat row))"
  shows "integrate_new_info self row column info =
           Some (Inr (self\<lparr>board := (board self)[nat row := (board self ! nat row)[nat column := info]]\<rparr>))"
  using assms by (simp add: integrate_new_info_def board_set_in_range)

theorem unrecognised_label_witness:
  "map_of (BOMB_KEY (version (new_Sweeper Classic))) ''F'' = None
   \<and> integrate_new_info (new_Sweeper Classic) 0 0 ''F'' =
       Some (Inr ((new_Sweeper Classic)\<lparr>board :=
          (board (new_Sweeper Classic))[nat 0 := (board (new_Sweeper Classic) ! nat 0)[nat 0 := ''F'']]\<rparr>))"
proof -
  have 1: "map_of (BOMB_KEY (version (new_Sweeper Classic))) ''F'' = None" by code_simp
  have 2: "(0::int) < int (length (board (new_Sweeper Classic)))" by code_simp
  have 3: "(0::int) < int (length (board (new_Sweeper Classic) ! nat 0))" by code_simp
  show ?thesis
    using unrecognised_label [OF 1 _ _ _ 2 _ 3] 1 by simp
qed

text \<open>
  Claim C8 as stated fails: the label \<^verbatim>\<open>F\<close> on a fresh Classic board replaces the empty
  string of cell (0, 0).
\<close>

theorem unrecognised_label_written:
  "(case integrate_new_info (new_Sweeper Classic) 0 0 ''F'' of
      Some (Inr self) \<Rightarrow> board self ! 0 ! 0 = ''F'' \<and> board (new_Sweeper Classic) ! 0 ! 0 = []
    | _ \<Rightarrow> False)"
  by code_simp

lemma calculate_bomb_fractions_message [simp]:
  "calculate_bomb_fractions (self\<lparr>message := m\<rparr>) solution = calculate_bomb_fractions self solution"
  by (simp add: calculate_bomb_fractions_def Let_def split: prod.splits option.splits)

lemma process_bomb_fractions_message:
  "map_option (map_sum id view) (process_bomb_fractions (self\<lparr>message := m\<rparr>) bi n)
     = map_option (map_sum id view) (process_bomb_fractions self bi n)"
  by (auto simp: process_bomb_fractions_def view_def split: sum.splits option.splits prod.splits)

text \<open>
  Claim C3, as amended. When the integration of an observation returns unsuccessfully,
  \<^verbatim>\<open>integrate_new_info\<close> returns normally, and the state it leaves is the one before the call
  with the label written into the cell, the observed tile (and, for a numeric label, its
  neighbours) taken out of the unconstrained set, the store as the integrator left it and the
  message \<^verbatim>\<open>Impossible layout\<close>. Nothing more is promised about later calls:
  \<^verbatim>\<open>calculate_board\<close> never reads the message, so whether it returns or raises, and the
  board, the constraint store and the unconstrained set it produces, are those of the same
  state with any other message.
\<close>

theorem contradiction_message:
  assumes "board_set (board self) row column info = Inr b"
  shows "(map_of (BOMB_KEY (version self)) info = Some bomb_nums
          \<and> integrate_new_bomb_eqs (constraints self)
               [new_BombEquation [(row, column)] [0],
                new_BombEquation (return_neighbours row column (height self) (width self)) bomb_nums]
              = Some (Inr (False, cs))
          \<longrightarrow> integrate_new_info self row column info =
                Some (Inr (self\<lparr>board := b,
                   unconstrained_tiles :=
                     fold remove_if_present (return_neighbours row column (height self) (width self))
                       (remove_if_present (row, column) (unconstrained_tiles self)),
                   constraints := cs, message := ''Impossible layout''\<rparr>)))
       \<and> (map_of (BOMB_KEY (version self)) info = None \<and> (info = ''B'' \<or> info = ''Rupoor'')
          \<and> integrate_new_bomb_eqs (constraints self) [new_BombEquation [(row, column)] [1]]
              = Some (Inr (False, cs))
          \<longrightarrow> integrate_new_info self row column info =
                Some (Inr (self\<lparr>board := b,
                   unconstrained_tiles := remove_if_present (row, column) (unconstrained_tiles self),
                   constraints := cs, message := ''Impossible layout''\<rparr>)))
       \<and> map_option (map_sum id view) (calculate_board depth (self\<lparr>message := m\<rparr>))
           = map_option (map_sum id view) (calculate_board depth self)"
proof (intro conjI)
  show "map_option (map_sum id view) (calculate_board depth (self\<lparr>message := m\<rparr>))
           = map_option (map_sum id view) (calculate_board depth self)"
    by (simp add: calculate_board_def process_bomb_fractions_message
             split: option.splits sum.splits prod.splits)
qed (use assms in \<open>auto simp: integrate_new_info_def\<close>)

theorem contradiction_message_witness:
  "(case integrate_all (set_custom (new_Sweeper Classic) 1 3 1) [(0, 0, ''B'')] of
      Some (Inr self) \<Rightarrow>
        board_set (board self) 0 0 ''0'' = Inr [[''0'', [], []]]
        \<and> map_of (BOMB_KEY (version self)) ''0'' = Some [0]
        \<and> integrate_new_bomb_eqs (constraints self)
             [new_BombEquation [(0, 0)] [0],
              new_BombEquation (return_neighbours 0 0 (height self) (width self)) [0]]
            = Some (Inr (False, [new_BombEquation [(0, 1)] [0], new_BombEquation [(0, 0)] [0]]))
        \<and> integrate_new_info self 0 0 ''0'' =
            Some (Inr \<lparr>version = Classic, height = 1, width = 3, bombs = 1,
               board = [[''0'', [], []]],
               constraints = [new_BombEquation [(0, 1)] [0], new_BombEquation [(0, 0)] [0]],
               unconstrained_tiles = [(0, 2)], message = ''Impossible layout''\<rparr>)
    | _ \<Rightarrow> False)"
proof -
  define s1 where "s1 =
    \<lparr>version = Classic, height = 1, width = 3, bombs = 1, board = [[''B'', [], []]],
     constraints = [new_BombEquation [(0, 0)] [1]], unconstrained_tiles = [(0, 1), (0, 2)],
     message = []\<rparr>"
  have run: "integrate_all (set_custom (new_Sweeper Classic) 1 3 1) [(0, 0, ''B'')] = Some (Inr s1)"
    unfolding s1_def by code_simp
  have h1: "board_set (board s1) 0 0 ''0'' = Inr [[''0'', [], []]]"
    unfolding s1_def by code_simp
  have h2: "map_of (BOMB_KEY (version s1)) ''0'' = Some [0]"
    unfolding s1_def by code_simp
  have h3: "integrate_new_bomb_eqs (constraints s1)
             [new_BombEquation [(0, 0)] [0],
              new_BombEquation (return_neighbours 0 0 (height s1) (width s1)) [0]]
            = Some (Inr (False, [new_BombEquation [(0, 1)] [0], new_BombEquation [(0, 0)] [0]]))"
    unfolding s1_def by code_simp
  have h4: "s1\<lparr>board := [[''0'', [], []]],
               unconstrained_tiles :=
                 fold remove_if_present (return_neighbours 0 0 (height s1) (width s1))
                   (remove_if_present (0, 0) (unconstrained_tiles s1)),
               constraints := [new_BombEquation [(0, 1)] [0], new_BombEquation [(0, 0)] [0]],
               message := ''Impossible layout''\<rparr>
            = \<lparr>version = Classic, height = 1, width = 3, bombs = 1,
               board = [[''0'', [], []]],
               constraints = [new_BombEquation [(0, 1)] [0], new_BombEquation [(0, 0)] [0]],
               unconstrained_tiles = [(0, 2)], message = ''Impossible layout''\<rparr>"
    unfolding s1_def by code_simp
  from contradiction_message [OF h1, of "[0]" "[new_BombEquation [(0, 1)] [0], new_BombEquation [(0, 0)] [0]]"]
    h2 h3
  have "integrate_new_info s1 0 0 ''0'' =
          Some (Inr (s1\<lparr>board := [[''0'', [], []]],
               unconstrained_tiles :=
                 fold remove_if_present (return_neighbours 0 0 (height s1) (width s1))
                   (remove_if_present (0, 0) (unconstrained_tiles s1)),
               constraints := [new_BombEquation [(0, 1)] [0], new_BombEquation [(0, 0)] [0]],
               message := ''Impossible layout''\<rparr>))"
    by blast
  with h1 h2 h3 show ?thesis by (simp add: run h4)
qed

text \<open>
  Claim C3 as stated fails: on a 1 by 3 board with one bomb, the label \<^verbatim>\<open>B\<close> and then the
  label \<^verbatim>\<open>0\<close> on cell (0, 0) make the integrator report a contradiction; the next
  \<^verbatim>\<open>calculate_board\<close> then marks (0, 1) safe and (0, 2) a bomb.
\<close>

theorem calculate_board_after_contradiction:
  "(case integrate_all (set_custom (new_Sweeper Classic) 1 3 1) [(0, 0, ''B''), (0, 0, ''0'')] of
      Some (Inr self) \<Rightarrow>
        message self = ''Impossible layout'' \<and> board self = [[''0'', [], []]]
        \<and> (case calculate_board 20 self of
               Some (Inr self') \<Rightarrow> board self' = [[''0'', ''S'', ''B/R'']]
             | _ \<Rightarrow> False)
    | _ \<Rightarrow> False)"
  by code_simp

text \<open>
  After a contradiction \<^verbatim>\<open>calculate_board\<close> may also raise: on a 3 by 3 board with five
  bombs, the labels \<^verbatim>\<open>B\<close> on (1, 1), (2, 0), (2, 2) and (1, 2), then \<^verbatim>\<open>3\<close> on (0, 1) and
  (1, 0), then \<^verbatim>\<open>3\<close> on (1, 2) set the message and leave an unsatisfiable store, and the
  next \<^verbatim>\<open>calculate_board\<close> ends in \<^verbatim>\<open>KeyError\<close>.
\<close>

lemma keyerror_after_contradiction:
  "(case integrate_all (set_custom (new_Sweeper Classic) 3 3 5)
           [(1, 1, ''B''), (2, 0, ''B''), (2, 2, ''B''), (1, 2, ''B''),
            (0, 1, ''3''), (1, 0, ''3''), (1, 2, ''3'')] of
      Some (Inr self) \<Rightarrow>
        message self = ''Impossible layout'' \<and> calculate_board 20 self = Some (Inl KeyError)
    | _ \<Rightarrow> False)"
  by code_simp

section \<open>The empty solution\<close>

text \<open>
  Claim C4. For the empty solution the total layout count of the formula is the empty sum 0,
  for which the claim promises the message \<^verbatim>\<open>Impossible layout\<close> and a normal return; the code
  raises KeyError at \<^verbatim>\<open>bomb_instances.pop((-1, -1))\<close>, before the count is looked at.
\<close>

theorem empty_solution_raises: "calculate_bomb_fractions self [] = Inl KeyError"
  by (simp add: calculate_bomb_fractions_def)
lemma triangle_unsatisfiable:
  assumes "a \<noteq> b" "a \<noteq> c" "b \<noteq> c"
    and "card (S \<inter> {a, c}) = 1" "card (S \<inter> {b, c}) = 1" "card (S \<inter> {a, b}) = 1"
  shows False
  using assms by (cases "a \<in> S"; cases "b \<in> S"; cases "c \<in> S") (simp_all add: Int_insert_right)

lemma satisfies_pair:
  "a \<noteq> b \<Longrightarrow> satisfies S (new_BombEquation [a, b] [1]) \<longleftrightarrow> card (S \<inter> {a, b}) = 1"
  by (auto simp: satisfies_def new_BombEquation_bombs fcard_finsert_if)

text \<open>
  Claim C10. On a 3 by 3 Classic board, three bomb labels and the numbers 2, 3, 3 are
  integrated without any contradiction being reported; the store then holds the equations
  ({a, c}, {1}), ({b, c}, {1}), ({a, b}, {1}) for a = (0, 0), b = (0, 2), c = (2, 1), which no
  bomb placement satisfies. \<^verbatim>\<open>solve_area\<close> returns the empty solution and \<^verbatim>\<open>calculate_board\<close>
  raises KeyError.
\<close>

theorem unsatisfiable_store_raises:
  "(case integrate_all (set_custom (new_Sweeper Classic) 3 3 4)
          [(1, 1, ''B''), (2, 0, ''B''), (2, 2, ''B''), (0, 1, ''2''), (1, 0, ''3''), (1, 2, ''3'')] of
      Some (Inr self) \<Rightarrow>
        message self = [] \<and> \<not> (\<exists>S. list_all (satisfies S) (constraints self))
        \<and> solve_area 20 (constraints self) = Some (Inr [])
        \<and> calculate_board 20 self = Some (Inl KeyError)
    | _ \<Rightarrow> False)
   \<and> solve_area 20 [new_BombEquation [(0, 0), (0, 2)] [1], new_BombEquation [(0, 0), (2, 1)] [1],
        new_BombEquation [(0, 2), (2, 1)] [1]] = Some (Inr [])"
proof -
  define store where "store =
    [new_BombEquation [(1, 1)] [1], new_BombEquation [(2, 0)] [1], new_BombEquation [(2, 2)] [1],
     new_BombEquation [(0, 1)] [0], new_BombEquation [(0, 0), (2, 1)] [1],
     new_BombEquation [(1, 0)] [0], new_BombEquation [(0, 2), (2, 1)] [1],
     new_BombEquation [(1, 2)] [0], new_BombEquation [(0, 0), (0, 2)] [1]]"
  define final where "final =
    \<lparr>version = Classic, height = 3, width = 3, bombs = 4,
     board = [[[], ''2'', []], [''3'', ''B'', ''3''], [''B'', [], ''B'']],
     constraints = store, unconstrained_tiles = [], message = []\<rparr>"
  have run: "integrate_all (set_custom (new_Sweeper Classic) 3 3 4)
          [(1, 1, ''B''), (2, 0, ''B''), (2, 2, ''B''), (0, 1, ''2''), (1, 0, ''3''), (1, 2, ''3'')]
        = Some (Inr final)"
    unfolding final_def store_def by code_simp
  have solve: "solve_area 20 store = Some (Inr [])"
    unfolding store_def by code_simp
  have calc: "calculate_board 20 final = Some (Inl KeyError)"
    unfolding final_def store_def by code_simp
  have unsat: "\<not> (\<exists>S. list_all (satisfies S) store)"
  proof
    assume "\<exists>S. list_all (satisfies S) store"
    then obtain S where "list_all (satisfies S) store" ..
    then have "card (S \<inter> {(0, 0), (2, 1)}) = 1" "card (S \<inter> {(0, 2), (2, 1)}) = 1"
      "card (S \<inter> {(0, 0), (0, 2)}) = 1"
      by (simp_all add: store_def satisfies_pair)
    then show False
      using triangle_unsatisfiable [of "(0, 0) :: tile" "(0, 2)" "(2, 1)" S] by simp
  qed
  have three: "solve_area 20 [new_BombEquation [(0, 0), (0, 2)] [1], new_BombEquation [(0, 0), (2, 1)] [1],
        new_BombEquation [(0, 2), (2, 1)] [1]] = Some (Inr [])"
    by code_simp
  show ?thesis
    using solve calc unsat three by (simp add: run) (simp add: final_def)
qed

section \<open>The algebra of solutions\<close>

lemma dict_get_Nil [simp]: "dict_get [] k d = d"
  by (simp add: dict_get_def)

lemma dict_get_update [simp]:
  "dict_get (AList.update k v al) k' d = (if k' = k then v else dict_get al k' d)"
  by (simp add: dict_get_def update_conv')

lemma dict_get_Cons [simp]:
  "dict_get ((k, v) # al) k' d = (if k' = k then v else dict_get al k' d)"
  by (simp add: dict_get_def)

lemma dict_get_notin: "k \<notin> fst ` set al \<Longrightarrow> dict_get al k d = d"
  using map_of_eq_None_iff [of al k] by (simp add: dict_get_def)

lemma dict_get_in: "k \<in> fst ` set al \<Longrightarrow> map_of al k = Some (dict_get al k d)"
  by (auto simp: dict_get_def map_of_eq_None_iff split: option.splits)

subsection \<open>add_instances\<close>

lemma add_instances_Nil [simp]: "add_instances bi [] = bi"
  by (simp add: add_instances_def)

lemma add_instances_Cons:
  "add_instances bi ((t, c) # rest) = add_instances (AList.update t (dict_get bi t 0 + c) bi) rest"
  by (simp add: add_instances_def)

lemma add_instances_keys: "fst ` set (add_instances bi obi) = fst ` set bi \<union> fst ` set obi"
proof (induction obi arbitrary: bi)
  case Nil
  then show ?case by simp
next
  case (Cons p obi)
  obtain t c where p: "p = (t, c)" by (cases p)
  show ?case unfolding p add_instances_Cons Cons.IH by (auto simp: dom_update)
qed

lemma add_instances_distinct:
  "distinct (map fst bi) \<Longrightarrow> distinct (map fst (add_instances bi obi))"
proof (induction obi arbitrary: bi)
  case Nil
  then show ?case by simp
next
  case (Cons p obi)
  obtain t c where p: "p = (t, c)" by (cases p)
  show ?case unfolding p add_instances_Cons using Cons by (simp add: distinct_update)
qed

lemma add_instances_get:
  "distinct (map fst obi) \<Longrightarrow>
   dict_get (add_instances bi obi) t 0 = dict_get bi t 0 + dict_get obi t 0"
proof (induction obi arbitrary: bi)
  case Nil
  then show ?case by simp
next
  case (Cons p obi)
  obtain t' c where p: "p = (t', c)" by (cases p)
  from Cons.prems have d: "distinct (map fst obi)" and n: "t' \<notin> fst ` set obi"
    by (auto simp: p)
  show ?case
    unfolding p add_instances_Cons Cons.IH [OF d]
    using n by (auto simp: dict_get_notin)
qed

subsection \<open>iadd\<close>

lemma iadd_alt: "iadd a b = (if a = [] then b else fold iadd_step b a)"
  by (simp add: iadd_def iadd_step_def)

lemma iadd_step_entry:
  "entry (iadd_step (k, F, N) s) k' =
     (if k' = k then (add_instances (fst (entry s k)) F, snd (entry s k) + N) else entry s k')"
  by (simp add: iadd_step_def entry_def split: prod.splits)

lemma iadd_step_keys: "sol_keys (iadd_step (k, F, N) s) = insert k (sol_keys s)"
  by (cases "dict_get s k ([], 0)") (simp add: iadd_step_def sol_keys_def dom_update)

lemma fold_iadd_step_keys: "sol_keys (fold iadd_step b s) = sol_keys s \<union> sol_keys b"
proof (induction b arbitrary: s)
  case Nil
  then show ?case by (simp add: sol_keys_def)
next
  case (Cons p b)
  obtain k F N where p: "p = (k, F, N)" by (cases p)
  show ?case by (simp add: p Cons.IH iadd_step_keys) (auto simp: sol_keys_def)
qed

lemma entry_Cons [simp]: "entry ((k', e) # b) k = (if k = k' then e else entry b k)"
  by (simp add: entry_def)

lemma entry_notin: "k \<notin> sol_keys s \<Longrightarrow> entry s k = ([], 0)"
  by (simp add: entry_def sol_keys_def dict_get_notin)

lemma fold_iadd_step_entry:
  "distinct (map fst b) \<Longrightarrow>
   entry (fold iadd_step b s) k =
     (add_instances (fst (entry s k)) (fst (entry b k)), snd (entry s k) + snd (entry b k))"
proof (induction b arbitrary: s)
  case Nil
  then show ?case by (simp add: entry_def)
next
  case (Cons p b)
  obtain k' F N where p: "p = (k', F, N)" by (cases p)
  from Cons.prems have d: "distinct (map fst b)" and n: "k' \<notin> sol_keys b"
    by (auto simp: p sol_keys_def)
  have step: "entry (fold iadd_step (p # b) s) k =
      (add_instances (fst (entry (iadd_step (k', F, N) s) k)) (fst (entry b k)),
       snd (entry (iadd_step (k', F, N) s) k) + snd (entry b k))"
    using Cons.IH [OF d, of "iadd_step (k', F, N) s"] by (simp add: p)
  show ?case
  proof (cases "k' = k")
    case True
    then show ?thesis
      using entry_notin [OF n] by (subst step) (simp add: p iadd_step_entry)
  next
    case False
    then show ?thesis
      by (subst step) (simp add: p iadd_step_entry)
  qed
qed

lemma entry_Nil [simp]: "entry [] k = ([], 0)"
  by (simp add: entry_def)

lemma iadd_entry:
  "distinct (map fst b) \<Longrightarrow> a \<noteq> [] \<Longrightarrow>
   entry (iadd a b) k =
     (add_instances (fst (entry a k)) (fst (entry b k)), snd (entry a k) + snd (entry b k))"
  by (simp add: iadd_alt fold_iadd_step_entry)

lemma cnt_Nil [simp]: "cnt [] k = 0"
  by (simp add: cnt_def)

lemma frq_Nil [simp]: "frq [] k t = 0"
  by (simp add: frq_def)

lemma sol_tiles_Nil [simp]: "sol_tiles [] k = {}"
  by (simp add: sol_tiles_def)

lemma sol_keys_Nil [simp]: "sol_keys [] = {}"
  by (simp add: sol_keys_def)

lemma wf_solution_entry: "wf_solution s \<Longrightarrow> distinct (map fst (fst (entry s k)))"
proof (cases "k \<in> sol_keys s")
  case True
  assume wf: "wf_solution s"
  from True have "map_of s k = Some (entry s k)"
    unfolding entry_def sol_keys_def by (rule dict_get_in)
  then have "(k, entry s k) \<in> set s" by (rule map_of_SomeD)
  with wf show ?thesis by (cases "entry s k") (auto simp: wf_solution_def)
next
  case False
  then show ?thesis by (simp add: entry_notin)
qed

lemma iadd_keys: "sol_keys (iadd a b) = sol_keys a \<union> sol_keys b"
  by (simp add: iadd_alt fold_iadd_step_keys)

lemma iadd_cnt: "wf_solution b \<Longrightarrow> cnt (iadd a b) k = cnt a k + cnt b k"
  by (cases "a = []") (simp_all add: cnt_def iadd_entry wf_solution_def, simp add: iadd_alt)

lemma iadd_frq: "wf_solution b \<Longrightarrow> frq (iadd a b) k t = frq a k t + frq b k t"
  by (cases "a = []")
     (simp_all add: frq_def iadd_entry wf_solution_def add_instances_get wf_solution_entry,
      simp add: iadd_alt)

lemma iadd_tiles: "wf_solution b \<Longrightarrow> sol_tiles (iadd a b) k = sol_tiles a k \<union> sol_tiles b k"
  by (cases "a = []")
     (simp_all add: sol_tiles_def iadd_entry wf_solution_def add_instances_keys, simp add: iadd_alt)

lemma wf_solution_iff:
  "wf_solution s \<longleftrightarrow> distinct (map fst s) \<and> (\<forall>k. distinct (map fst (fst (entry s k))))"
proof
  assume "wf_solution s"
  then show "distinct (map fst s) \<and> (\<forall>k. distinct (map fst (fst (entry s k))))"
    by (simp add: wf_solution_entry) (simp add: wf_solution_def)
next
  assume r: "distinct (map fst s) \<and> (\<forall>k. distinct (map fst (fst (entry s k))))"
  have "distinct (map fst F)" if "(k, F, N) \<in> set s" for k F N
  proof -
    from r that have "map_of s k = Some (F, N)" by simp
    then have "entry s k = (F, N)" by (simp add: entry_def dict_get_def)
    with r show ?thesis by (metis fst_conv)
  qed
  with r show "wf_solution s" by (auto simp: wf_solution_def)
qed

lemma distinct_fold_iadd_step: "distinct (map fst s) \<Longrightarrow> distinct (map fst (fold iadd_step b s))"
proof (induction b arbitrary: s)
  case Nil
  then show ?case by simp
next
  case (Cons p b)
  obtain k F N where p: "p = (k, F, N)" by (cases p)
  have "distinct (map fst (iadd_step (k, F, N) s))"
    using Cons.prems by (cases "dict_get s k ([], 0)") (simp add: iadd_step_def distinct_update)
  then show ?case by (simp add: p Cons.IH)
qed

lemma iadd_wf:
  assumes "wf_solution a" and "wf_solution b"
  shows "wf_solution (iadd a b)"
proof (cases "a = []")
  case True
  with assms show ?thesis by (simp add: iadd_alt)
next
  case False
  have d: "distinct (map fst (iadd a b))"
    using assms(1) False by (simp add: iadd_alt distinct_fold_iadd_step wf_solution_def)
  have "distinct (map fst (fst (entry (iadd a b) k)))" for k
    using assms False
    by (simp add: iadd_entry wf_solution_def add_instances_distinct wf_solution_entry)
  with d show ?thesis by (simp add: wf_solution_iff)
qed

subsection \<open>scale_instances\<close>

lemma scale_instances_Nil [simp]: "scale_instances [] f acc = acc"
  by (simp add: scale_instances_def)

lemma scale_instances_Cons:
  "scale_instances ((t, c) # rest) f acc = scale_instances rest f (AList.update t (c * f) acc)"
  by (simp add: scale_instances_def)

lemma scale_instances_keys: "fst ` set (scale_instances bi f acc) = fst ` set acc \<union> fst ` set bi"
proof (induction bi arbitrary: acc)
  case Nil
  then show ?case by simp
next
  case (Cons p bi)
  obtain t c where p: "p = (t, c)" by (cases p)
  show ?case unfolding p scale_instances_Cons Cons.IH by (auto simp: dom_update)
qed

lemma scale_instances_distinct:
  "distinct (map fst acc) \<Longrightarrow> distinct (map fst (scale_instances bi f acc))"
proof (induction bi arbitrary: acc)
  case Nil
  then show ?case by simp
next
  case (Cons p bi)
  obtain t c where p: "p = (t, c)" by (cases p)
  show ?case unfolding p scale_instances_Cons using Cons by (simp add: distinct_update)
qed

lemma scale_instances_get:
  "distinct (map fst bi) \<Longrightarrow>
   dict_get (scale_instances bi f acc) t 0 =
     (if t \<in> fst ` set bi then dict_get bi t 0 * f else dict_get acc t 0)"
proof (induction bi arbitrary: acc)
  case Nil
  then show ?case by simp
next
  case (Cons p bi)
  obtain t' c where p: "p = (t', c)" by (cases p)
  from Cons.prems have d: "distinct (map fst bi)" and n: "t' \<notin> fst ` set bi"
    by (auto simp: p)
  show ?case
    unfolding p scale_instances_Cons Cons.IH [OF d]
    using n by auto
qed

subsection \<open>mul\<close>

lemma mul_alt: "mul a b = fold mul_step (List.product a b) []"
proof -
  have inner: "fold (\<lambda>(k2, F2, N2) r.
                 iadd r [(k + k2, scale_instances F2 N (scale_instances F N2 []), N * N2)]) b r
        = fold mul_step (map (Pair (k, F, N)) b) r" for k F N r
    by (induction b arbitrary: r) (auto simp: mul_step_def mul_entry_def)
  have outer: "fold (\<lambda>x. fold mul_step (map (Pair x) b)) a r = fold mul_step (List.product a b) r"
    for r
    by (induction a arbitrary: r) simp_all
  have "(\<lambda>(k1, F1, N1).
        fold (\<lambda>(k2, F2, N2) r.
                iadd r [(k1 + k2, scale_instances F2 N1 (scale_instances F1 N2 []), N1 * N2)]) b)
        = (\<lambda>x. fold mul_step (map (Pair x) b))"
    by (rule ext) (auto simp: inner)
  then show ?thesis by (simp add: mul_def Let_def outer)
qed

lemma mul_entry_snd [simp]: "snd (mul_entry e1 e2) = snd e1 * snd e2"
  by (simp add: mul_entry_def)

lemma mul_entry_keys:
  "fst ` set (fst (mul_entry e1 e2)) = fst ` set (fst e1) \<union> fst ` set (fst e2)"
  by (simp add: mul_entry_def scale_instances_keys)

lemma mul_entry_distinct: "distinct (map fst (fst (mul_entry e1 e2)))"
  by (simp add: mul_entry_def scale_instances_distinct)

lemma mul_entry_get:
  assumes "distinct (map fst (fst e1))" and "distinct (map fst (fst e2))"
  shows "dict_get (fst (mul_entry e1 e2)) t 0 =
           (if t \<in> fst ` set (fst e2) then dict_get (fst e2) t 0 * snd e1
            else dict_get (fst e1) t 0 * snd e2)"
  using assms by (simp add: mul_entry_def scale_instances_get dict_get_notin)

lemma mul_step_alt: "mul_step p r = iadd r [(pair_key p, pair_entry p)]"
  by (simp add: mul_step_def pair_key_def pair_entry_def)

lemma wf_single: "distinct (map fst F) \<Longrightarrow> wf_solution [(k, F, N)]"
  by (simp add: wf_solution_def)

lemma wf_pair_single: "wf_solution [(pair_key p, pair_entry p)]"
  by (cases "pair_entry p") (metis fst_conv mul_entry_distinct pair_entry_def wf_single)

lemma cnt_single [simp]: "cnt [(k', e)] k = (if k = k' then snd e else 0)"
  by (simp add: cnt_def)

lemma frq_single [simp]: "frq [(k', e)] k t = (if k = k' then dict_get (fst e) t 0 else 0)"
  by (simp add: frq_def)

lemma sol_tiles_single [simp]: "sol_tiles [(k', e)] k = (if k = k' then fst ` set (fst e) else {})"
  by (simp add: sol_tiles_def)

lemma sol_keys_single [simp]: "sol_keys [(k', e)] = {k'}"
  by (simp add: sol_keys_def)

lemma fold_mul_step_cnt:
  "cnt (fold mul_step ps r) k =
     cnt r k + (\<Sum>p\<leftarrow>ps. if pair_key p = k then snd (pair_entry p) else 0)"
  by (induction ps arbitrary: r) (auto simp: mul_step_alt iadd_cnt wf_pair_single)

lemma fold_mul_step_frq:
  "frq (fold mul_step ps r) k t =
     frq r k t + (\<Sum>p\<leftarrow>ps. if pair_key p = k then dict_get (fst (pair_entry p)) t 0 else 0)"
  by (induction ps arbitrary: r) (auto simp: mul_step_alt iadd_frq wf_pair_single)

lemma fold_mul_step_tiles:
  "sol_tiles (fold mul_step ps r) k =
     sol_tiles r k \<union> (\<Union>p\<in>set ps. if pair_key p = k then fst ` set (fst (pair_entry p)) else {})"
  by (induction ps arbitrary: r) (auto simp: mul_step_alt iadd_tiles wf_pair_single)

lemma fold_mul_step_keys:
  "sol_keys (fold mul_step ps r) = sol_keys r \<union> pair_key ` set ps"
  by (induction ps arbitrary: r) (auto simp: mul_step_alt iadd_keys)

lemma fold_mul_step_wf:
  "wf_solution r \<Longrightarrow> wf_solution (fold mul_step ps r)"
  by (induction ps arbitrary: r) (auto simp: mul_step_alt iadd_wf wf_pair_single)

lemma wf_Nil [simp]: "wf_solution []"
  by (simp add: wf_solution_def)

lemma mul_wf: "wf_solution (mul a b)"
  by (simp add: mul_alt fold_mul_step_wf)

text \<open>Sums over the items of a dict are sums over its keys.\<close>

lemma entry_of_item:
  "distinct (map fst s) \<Longrightarrow> x \<in> set s \<Longrightarrow> snd x = entry s (fst x)"
  by (cases x) (simp add: entry_def dict_get_def)

lemma sum_items:
  assumes "distinct (map fst s)"
  shows "(\<Sum>x\<leftarrow>s. g (fst x) (snd x)) = (\<Sum>k\<in>sol_keys s. g k (entry s k))"
proof -
  have inj: "inj_on fst (set s)" using assms by (simp add: distinct_map)
  have "(\<Sum>x\<leftarrow>s. g (fst x) (snd x)) = (\<Sum>x\<in>set s. g (fst x) (snd x))"
    using assms by (simp add: sum_list_distinct_conv_sum_set distinct_map)
  also have "\<dots> = (\<Sum>x\<in>set s. g (fst x) (entry s (fst x)))"
    using assms by (intro sum.cong) (simp_all add: entry_of_item)
  also have "\<dots> = (\<Sum>k\<in>sol_keys s. g k (entry s k))"
    unfolding sol_keys_def by (simp add: sum.reindex [OF inj])
  finally show ?thesis .
qed

lemma sum_list_product:
  "(\<Sum>p\<leftarrow>List.product xs ys. g p) = (\<Sum>x\<leftarrow>xs. \<Sum>y\<leftarrow>ys. g (x, y))"
  by (induction xs) (simp_all add: comp_def)

lemma sum_product_items:
  assumes "distinct (map fst a)" and "distinct (map fst b)"
  shows "(\<Sum>p\<leftarrow>List.product a b. g (fst (fst p)) (snd (fst p)) (fst (snd p)) (snd (snd p)))
         = (\<Sum>k1\<in>sol_keys a. \<Sum>k2\<in>sol_keys b. g k1 (entry a k1) k2 (entry b k2))"
proof -
  have "(\<Sum>p\<leftarrow>List.product a b. g (fst (fst p)) (snd (fst p)) (fst (snd p)) (snd (snd p)))
        = (\<Sum>x\<leftarrow>a. \<Sum>y\<leftarrow>b. g (fst x) (snd x) (fst y) (snd y))"
    by (simp add: sum_list_product)
  also have "\<dots> = (\<Sum>x\<leftarrow>a. \<Sum>k2\<in>sol_keys b. g (fst x) (snd x) k2 (entry b k2))"
    by (simp add: sum_items [OF assms(2)])
  also have "\<dots> = (\<Sum>k1\<in>sol_keys a. \<Sum>k2\<in>sol_keys b. g k1 (entry a k1) k2 (entry b k2))"
    by (rule sum_items [OF assms(1)])
  finally show ?thesis .
qed

lemma mul_cnt:
  assumes "wf_solution a" and "wf_solution b"
  shows "cnt (mul a b) k =
           (\<Sum>k1\<in>sol_keys a. \<Sum>k2\<in>sol_keys b. if k1 + k2 = k then cnt a k1 * cnt b k2 else 0)"
proof -
  have da: "distinct (map fst a)" and db: "distinct (map fst b)"
    using assms by (simp_all add: wf_solution_def)
  show ?thesis
    unfolding mul_alt fold_mul_step_cnt
    using sum_product_items [OF da db, of "\<lambda>k1 e1 k2 e2. if k1 + k2 = k then snd e1 * snd e2 else 0"]
    by (simp add: pair_key_def pair_entry_def cnt_def cong: if_cong)
qed

lemma mul_frq:
  assumes "wf_solution a" and "wf_solution b"
  shows "frq (mul a b) k t =
           (\<Sum>k1\<in>sol_keys a. \<Sum>k2\<in>sol_keys b.
              if k1 + k2 = k
              then (if t \<in> sol_tiles b k2 then frq b k2 t * cnt a k1 else frq a k1 t * cnt b k2)
              else 0)"
proof -
  have da: "distinct (map fst a)" and db: "distinct (map fst b)"
    using assms by (simp_all add: wf_solution_def)
  have "frq (mul a b) k t =
     (\<Sum>k1\<in>sol_keys a. \<Sum>k2\<in>sol_keys b.
        if k1 + k2 = k then dict_get (fst (mul_entry (entry a k1) (entry b k2))) t 0 else 0)"
    unfolding mul_alt fold_mul_step_frq
    using sum_product_items [OF da db,
        of "\<lambda>k1 e1 k2 e2. if k1 + k2 = k then dict_get (fst (mul_entry e1 e2)) t 0 else 0"]
    by (simp add: pair_key_def pair_entry_def cong: if_cong)
  also have "\<dots> = (\<Sum>k1\<in>sol_keys a. \<Sum>k2\<in>sol_keys b.
              if k1 + k2 = k
              then (if t \<in> sol_tiles b k2 then frq b k2 t * cnt a k1 else frq a k1 t * cnt b k2)
              else 0)"
    using assms
    by (intro sum.cong refl)
       (simp add: mul_entry_get wf_solution_entry sol_tiles_def frq_def cnt_def)
  finally show ?thesis .
qed

lemma mul_keys: "sol_keys (mul a b) = (\<lambda>(k1, k2). k1 + k2) ` (sol_keys a \<times> sol_keys b)"
proof -
  have "pair_key ` set (List.product a b) = (\<lambda>(x, y). fst x + fst y) ` (set a \<times> set b)"
    by (force simp: pair_key_def image_iff)
  also have "\<dots> = (\<lambda>(k1, k2). k1 + k2) ` (fst ` set a \<times> fst ` set b)"
    by (force simp: image_iff)
  finally show ?thesis unfolding mul_alt fold_mul_step_keys by (simp add: sol_keys_def)
qed

lemma Union_product:
  "(\<Union>p\<in>set (List.product xs ys). h p) = (\<Union>x\<in>set xs. \<Union>y\<in>set ys. h (x, y))"
  by auto

lemma Union_items:
  assumes "distinct (map fst s)"
  shows "(\<Union>x\<in>set s. g (fst x) (snd x)) = (\<Union>k\<in>sol_keys s. g k (entry s k))"
proof -
  have "(\<Union>x\<in>set s. g (fst x) (snd x)) = (\<Union>x\<in>set s. g (fst x) (entry s (fst x)))"
    using assms by (intro SUP_cong refl) (simp add: entry_of_item)
  then show ?thesis by (simp add: sol_keys_def)
qed

lemma mul_tiles:
  assumes "wf_solution a" and "wf_solution b"
  shows "sol_tiles (mul a b) k =
           (\<Union>k1\<in>sol_keys a. \<Union>k2\<in>sol_keys b.
              if k1 + k2 = k then sol_tiles a k1 \<union> sol_tiles b k2 else {})"
proof -
  have da: "distinct (map fst a)" and db: "distinct (map fst b)"
    using assms by (simp_all add: wf_solution_def)
  have "sol_tiles (mul a b) k =
      (\<Union>x\<in>set a. \<Union>y\<in>set b. if fst x + fst y = k
          then fst ` set (fst (snd x)) \<union> fst ` set (fst (snd y)) else {})"
    unfolding mul_alt fold_mul_step_tiles Union_product
    by (simp add: pair_key_def pair_entry_def mul_entry_keys cong: if_cong)
  also have "\<dots> = (\<Union>x\<in>set a. \<Union>k2\<in>sol_keys b. if fst x + k2 = k
          then fst ` set (fst (snd x)) \<union> sol_tiles b k2 else {})"
    using Union_items [OF db, of "\<lambda>k2 e2. if k' + k2 = k then X \<union> fst ` set (fst e2) else {}" for k' X]
    by (simp add: sol_tiles_def)
  also have "\<dots> = (\<Union>k1\<in>sol_keys a. \<Union>k2\<in>sol_keys b.
              if k1 + k2 = k then sol_tiles a k1 \<union> sol_tiles b k2 else {})"
    using Union_items [OF da, of "\<lambda>k1 e1. \<Union>k2\<in>sol_keys b. if k1 + k2 = k
          then fst ` set (fst e1) \<union> sol_tiles b k2 else {}"]
    by (simp add: sol_tiles_def)
  finally show ?thesis .
qed

lemma sol_map_eqI:
  assumes "sol_keys a = sol_keys b" and "\<And>k. cnt a k = cnt b k"
    and "\<And>k t. frq a k t = frq b k t" and "\<And>k. sol_tiles a k = sol_tiles b k"
  shows "sol_map a = sol_map b"
proof (rule ext)
  fix k
  show "sol_map a k = sol_map b k"
  proof (cases "k \<in> sol_keys a")
    case False
    with assms(1) have "map_of a k = None" "map_of b k = None"
      by (simp_all add: sol_keys_def map_of_eq_None_iff)
    then show ?thesis by (simp add: sol_map_def)
  next
    case True
    with assms(1) have a: "map_of a k = Some (entry a k)" and b: "map_of b k = Some (entry b k)"
      unfolding entry_def sol_keys_def by (simp_all add: dict_get_in)
    have "map_of (fst (entry a k)) t = map_of (fst (entry b k)) t" for t
    proof (cases "t \<in> sol_tiles a k")
      case False
      with assms(4) [of k] have
        "map_of (fst (entry a k)) t = None" "map_of (fst (entry b k)) t = None"
        by (simp_all add: sol_tiles_def map_of_eq_None_iff)
      then show ?thesis by simp
    next
      case True
      with assms(4) [of k] have
        "map_of (fst (entry a k)) t = Some (frq a k t)" "map_of (fst (entry b k)) t = Some (frq b k t)"
        unfolding frq_def sol_tiles_def by (simp_all add: dict_get_in)
      with assms(3) show ?thesis by simp
    qed
    then have "map_of (fst (entry a k)) = map_of (fst (entry b k))" by (rule ext)
    moreover have "snd (entry a k) = snd (entry b k)" using assms(2) [of k] by (simp add: cnt_def)
    ultimately show ?thesis by (simp add: sol_map_def a b split_beta)
  qed
qed

lemma conv_left:
  fixes f :: "int \<Rightarrow> int \<Rightarrow> int" and h :: "int \<Rightarrow> int"
  assumes "finite AB" and "\<And>k1 k2. k1 \<in> A \<Longrightarrow> k2 \<in> B \<Longrightarrow> k1 + k2 \<in> AB"
  shows "(\<Sum>k12\<in>AB. \<Sum>k3\<in>C. if k12 + k3 = k
            then (\<Sum>k1\<in>A. \<Sum>k2\<in>B. if k1 + k2 = k12 then f k1 k2 else 0) * h k3 else 0)
         = (\<Sum>k1\<in>A. \<Sum>k2\<in>B. \<Sum>k3\<in>C. if k1 + k2 + k3 = k then f k1 k2 * h k3 else 0)"
proof -
  have "(\<Sum>k12\<in>AB. \<Sum>k3\<in>C. if k12 + k3 = k
            then (\<Sum>k1\<in>A. \<Sum>k2\<in>B. if k1 + k2 = k12 then f k1 k2 else 0) * h k3 else 0)
      = (\<Sum>k12\<in>AB. \<Sum>k3\<in>C. \<Sum>k1\<in>A. \<Sum>k2\<in>B.
            if k12 = k1 + k2 then (if k1 + k2 + k3 = k then f k1 k2 * h k3 else 0) else 0)"
  proof (intro sum.cong refl)
    fix k12 k3
    show "(if k12 + k3 = k
            then (\<Sum>k1\<in>A. \<Sum>k2\<in>B. if k1 + k2 = k12 then f k1 k2 else 0) * h k3 else 0)
        = (\<Sum>k1\<in>A. \<Sum>k2\<in>B.
            if k12 = k1 + k2 then (if k1 + k2 + k3 = k then f k1 k2 * h k3 else 0) else 0)"
    proof (cases "k12 + k3 = k")
      case True
      then show ?thesis
        by (auto simp: sum_distrib_right intro!: sum.cong)
    next
      case False
      then have "(if k12 = k1 + k2 then (if k1 + k2 + k3 = k then f k1 k2 * h k3 else 0) else 0) = 0"
        for k1 k2 by auto
      with False show ?thesis by simp
    qed
  qed
  also have "\<dots> = (\<Sum>k3\<in>C. \<Sum>k12\<in>AB. \<Sum>k1\<in>A. \<Sum>k2\<in>B.
            if k12 = k1 + k2 then (if k1 + k2 + k3 = k then f k1 k2 * h k3 else 0) else 0)"
    by (rule sum.swap)
  also have "\<dots> = (\<Sum>k3\<in>C. \<Sum>k1\<in>A. \<Sum>k12\<in>AB. \<Sum>k2\<in>B.
            if k12 = k1 + k2 then (if k1 + k2 + k3 = k then f k1 k2 * h k3 else 0) else 0)"
    by (rule sum.cong [OF refl]) (rule sum.swap)
  also have "\<dots> = (\<Sum>k3\<in>C. \<Sum>k1\<in>A. \<Sum>k2\<in>B. \<Sum>k12\<in>AB.
            if k12 = k1 + k2 then (if k1 + k2 + k3 = k then f k1 k2 * h k3 else 0) else 0)"
    by (rule sum.cong [OF refl], rule sum.cong [OF refl]) (rule sum.swap)
  also have "\<dots> = (\<Sum>k3\<in>C. \<Sum>k1\<in>A. \<Sum>k2\<in>B. if k1 + k2 + k3 = k then f k1 k2 * h k3 else 0)"
    using assms by (intro sum.cong refl) (simp add: sum.delta)
  also have "\<dots> = (\<Sum>k1\<in>A. \<Sum>k3\<in>C. \<Sum>k2\<in>B. if k1 + k2 + k3 = k then f k1 k2 * h k3 else 0)"
    by (rule sum.swap)
  also have "\<dots> = (\<Sum>k1\<in>A. \<Sum>k2\<in>B. \<Sum>k3\<in>C. if k1 + k2 + k3 = k then f k1 k2 * h k3 else 0)"
    by (rule sum.cong [OF refl]) (rule sum.swap)
  finally show ?thesis .
qed

lemma conv_right:
  fixes f :: "int \<Rightarrow> int \<Rightarrow> int" and h :: "int \<Rightarrow> int"
  assumes "finite BC" and "\<And>k2 k3. k2 \<in> B \<Longrightarrow> k3 \<in> C \<Longrightarrow> k2 + k3 \<in> BC"
  shows "(\<Sum>k1\<in>A. \<Sum>k23\<in>BC. if k1 + k23 = k
            then h k1 * (\<Sum>k2\<in>B. \<Sum>k3\<in>C. if k2 + k3 = k23 then f k2 k3 else 0) else 0)
         = (\<Sum>k1\<in>A. \<Sum>k2\<in>B. \<Sum>k3\<in>C. if k1 + k2 + k3 = k then h k1 * f k2 k3 else 0)"
proof -
  have "(\<Sum>k1\<in>A. \<Sum>k23\<in>BC. if k1 + k23 = k
            then h k1 * (\<Sum>k2\<in>B. \<Sum>k3\<in>C. if k2 + k3 = k23 then f k2 k3 else 0) else 0)
      = (\<Sum>k1\<in>A. \<Sum>k23\<in>BC. \<Sum>k2\<in>B. \<Sum>k3\<in>C.
            if k23 = k2 + k3 then (if k1 + k2 + k3 = k then h k1 * f k2 k3 else 0) else 0)"
  proof (intro sum.cong refl)
    fix k1 k23
    show "(if k1 + k23 = k
            then h k1 * (\<Sum>k2\<in>B. \<Sum>k3\<in>C. if k2 + k3 = k23 then f k2 k3 else 0) else 0)
        = (\<Sum>k2\<in>B. \<Sum>k3\<in>C.
            if k23 = k2 + k3 then (if k1 + k2 + k3 = k then h k1 * f k2 k3 else 0) else 0)"
    proof (cases "k1 + k23 = k")
      case True
      then show ?thesis
        by (auto simp: sum_distrib_left add.assoc intro!: sum.cong)
    next
      case False
      then have "(if k23 = k2 + k3 then (if k1 + k2 + k3 = k then h k1 * f k2 k3 else 0) else 0) = 0"
        for k2 k3 by auto
      with False show ?thesis by simp
    qed
  qed
  also have "\<dots> = (\<Sum>k1\<in>A. \<Sum>k2\<in>B. \<Sum>k23\<in>BC. \<Sum>k3\<in>C.
            if k23 = k2 + k3 then (if k1 + k2 + k3 = k then h k1 * f k2 k3 else 0) else 0)"
    by (rule sum.cong [OF refl]) (rule sum.swap)
  also have "\<dots> = (\<Sum>k1\<in>A. \<Sum>k2\<in>B. \<Sum>k3\<in>C. \<Sum>k23\<in>BC.
            if k23 = k2 + k3 then (if k1 + k2 + k3 = k then h k1 * f k2 k3 else 0) else 0)"
    by (rule sum.cong [OF refl], rule sum.cong [OF refl]) (rule sum.swap)
  also have "\<dots> = (\<Sum>k1\<in>A. \<Sum>k2\<in>B. \<Sum>k3\<in>C. if k1 + k2 + k3 = k then h k1 * f k2 k3 else 0)"
    using assms by (intro sum.cong refl) (simp add: sum.delta)
  finally show ?thesis .
qed

lemma finite_sol_keys [simp]: "finite (sol_keys s)"
  by (simp add: sol_keys_def)

lemma cnt_notin: "k \<notin> sol_keys s \<Longrightarrow> cnt s k = 0"
  by (simp add: cnt_def entry_notin)

lemma frq_notin: "k \<notin> sol_keys s \<Longrightarrow> frq s k t = 0"
  by (simp add: frq_def entry_notin)

lemma sol_tiles_notin: "k \<notin> sol_keys s \<Longrightarrow> sol_tiles s k = {}"
  by (simp add: sol_tiles_def entry_notin)

lemma frq_notin_tiles: "t \<notin> sol_tiles s k \<Longrightarrow> frq s k t = 0"
  by (simp add: frq_def sol_tiles_def dict_get_notin)

lemma sol_tiles_subset: "sol_tiles s k \<subseteq> solution_tiles s"
proof (cases "k \<in> sol_keys s")
  case True
  then have "map_of s k = Some (entry s k)"
    unfolding entry_def sol_keys_def by (rule dict_get_in)
  then have "(k, entry s k) \<in> set s" by (rule map_of_SomeD)
  then show ?thesis
    by (cases "entry s k") (force simp: solution_tiles_def sol_tiles_def)
next
  case False
  then show ?thesis by (simp add: sol_tiles_notin)
qed

lemma solution_tiles_alt: "wf_solution s \<Longrightarrow> solution_tiles s = (\<Union>k. sol_tiles s k)"
proof
  assume wf: "wf_solution s"
  show "solution_tiles s \<subseteq> (\<Union>k. sol_tiles s k)"
  proof
    fix t assume "t \<in> solution_tiles s"
    then obtain k F N where in_s: "(k, F, N) \<in> set s" and t: "t \<in> fst ` set F"
      by (auto simp: solution_tiles_def)
    from wf in_s have "snd (k, F, N) = entry s (fst (k, F, N))"
      by (intro entry_of_item) (simp_all add: wf_solution_def)
    then have "entry s k = (F, N)" by simp
    with t have "t \<in> sol_tiles s k" by (simp add: sol_tiles_def)
    then show "t \<in> (\<Union>k. sol_tiles s k)" by blast
  qed
next
  show "(\<Union>k. sol_tiles s k) \<subseteq> solution_tiles s"
    using sol_tiles_subset by blast
qed

lemma solution_tiles_iadd:
  "wf_solution a \<Longrightarrow> wf_solution b \<Longrightarrow> solution_tiles (iadd a b) = solution_tiles a \<union> solution_tiles b"
  by (simp add: solution_tiles_alt iadd_wf iadd_tiles) blast

lemma solution_tiles_mul:
  assumes "wf_solution a" and "wf_solution b"
  shows "solution_tiles (mul a b) \<subseteq> solution_tiles a \<union> solution_tiles b"
proof -
  have "sol_tiles (mul a b) k \<subseteq> solution_tiles a \<union> solution_tiles b" for k
    unfolding mul_tiles [OF assms]
    using sol_tiles_subset [of a] sol_tiles_subset [of b] by (auto split: if_splits)
  then show ?thesis by (auto simp: solution_tiles_alt mul_wf)
qed

lemma mul_frq_disjoint:
  assumes "wf_solution a" and "wf_solution b" and "solution_tiles a \<inter> solution_tiles b = {}"
  shows "frq (mul a b) k t =
           (\<Sum>k1\<in>sol_keys a. \<Sum>k2\<in>sol_keys b.
              if k1 + k2 = k then frq a k1 t * cnt b k2 + frq b k2 t * cnt a k1 else 0)"
  unfolding mul_frq [OF assms(1,2)]
proof (intro sum.cong refl)
  fix k1 k2
  show "(if k1 + k2 = k
         then if t \<in> sol_tiles b k2 then frq b k2 t * cnt a k1 else frq a k1 t * cnt b k2 else 0)
      = (if k1 + k2 = k then frq a k1 t * cnt b k2 + frq b k2 t * cnt a k1 else 0)"
  proof (cases "t \<in> sol_tiles b k2")
    case True
    with assms(3) sol_tiles_subset [of a k1] sol_tiles_subset [of b k2]
    have "t \<notin> sol_tiles a k1" by blast
    then show ?thesis using True by (simp add: frq_notin_tiles)
  next
    case False
    then show ?thesis by (simp add: frq_notin_tiles)
  qed
qed

subsection \<open>The laws\<close>

lemma iadd_commute:
  "wf_solution a \<Longrightarrow> wf_solution b \<Longrightarrow> sol_map (iadd a b) = sol_map (iadd b a)"
  by (rule sol_map_eqI) (auto simp: iadd_keys iadd_cnt iadd_frq iadd_tiles)

lemma iadd_assoc:
  "wf_solution a \<Longrightarrow> wf_solution b \<Longrightarrow> wf_solution c \<Longrightarrow>
   sol_map (iadd (iadd a b) c) = sol_map (iadd a (iadd b c))"
  by (rule sol_map_eqI) (auto simp: iadd_keys iadd_cnt iadd_frq iadd_tiles iadd_wf)

lemma mul_commute:
  assumes "wf_solution a" and "wf_solution b" and "solution_tiles a \<inter> solution_tiles b = {}"
  shows "sol_map (mul a b) = sol_map (mul b a)"
proof (rule sol_map_eqI)
  show "sol_keys (mul a b) = sol_keys (mul b a)"
    by (force simp: mul_keys image_iff add.commute)
  show "cnt (mul a b) k = cnt (mul b a) k" for k
    unfolding mul_cnt [OF assms(1,2)] mul_cnt [OF assms(2,1)]
    by (subst sum.swap) (simp add: add.commute mult.commute cong: if_cong)
  have d: "solution_tiles b \<inter> solution_tiles a = {}" using assms(3) by blast
  show "frq (mul a b) k t = frq (mul b a) k t" for k t
    unfolding mul_frq_disjoint [OF assms] mul_frq_disjoint [OF assms(2,1) d]
    by (subst sum.swap) (simp add: add.commute cong: if_cong)
  show "sol_tiles (mul a b) k = sol_tiles (mul b a) k" for k
    unfolding mul_tiles [OF assms(1,2)] mul_tiles [OF assms(2,1)]
    by (auto simp: add.commute split: if_splits)
qed

lemma wf_empty_solution [simp]: "wf_solution [(0, [], 1)]"
  by (simp add: wf_solution_def)

lemma mul_identity_left:
  assumes "wf_solution a"
  shows "sol_map (mul [(0, [], 1)] a) = sol_map a"
proof (rule sol_map_eqI)
  note wf = wf_empty_solution assms
  show "sol_keys (mul [(0, [], 1)] a) = sol_keys a"
    by (force simp: mul_keys image_iff)
  show "cnt (mul [(0, [], 1)] a) k = cnt a k" for k
    unfolding mul_cnt [OF wf] by (simp add: sum.delta cnt_notin cong: if_cong)
  show "frq (mul [(0, [], 1)] a) k t = frq a k t" for k t
    unfolding mul_frq [OF wf] by (simp add: sum.delta frq_notin frq_notin_tiles cong: if_cong)
  show "sol_tiles (mul [(0, [], 1)] a) k = sol_tiles a k" for k
    unfolding mul_tiles [OF wf] using sol_tiles_notin [of k a] by (auto split: if_splits)
qed

lemma mul_identity_right:
  assumes "wf_solution a"
  shows "sol_map (mul a [(0, [], 1)]) = sol_map a"
proof (rule sol_map_eqI)
  note wf = assms wf_empty_solution
  show "sol_keys (mul a [(0, [], 1)]) = sol_keys a"
    by (force simp: mul_keys image_iff)
  show "cnt (mul a [(0, [], 1)]) k = cnt a k" for k
    unfolding mul_cnt [OF wf] by (simp add: sum.delta cnt_notin cong: if_cong)
  show "frq (mul a [(0, [], 1)]) k t = frq a k t" for k t
    unfolding mul_frq [OF wf] by (simp add: sum.delta frq_notin cong: if_cong)
  show "sol_tiles (mul a [(0, [], 1)]) k = sol_tiles a k" for k
    unfolding mul_tiles [OF wf] using sol_tiles_notin [of k a] by (auto split: if_splits)
qed

lemma mul_tiles_mem:
  assumes "wf_solution a" and "wf_solution b"
  shows "t \<in> sol_tiles (mul a b) k \<longleftrightarrow>
           (\<exists>k1\<in>sol_keys a. \<exists>k2\<in>sol_keys b. k1 + k2 = k \<and> (t \<in> sol_tiles a k1 \<or> t \<in> sol_tiles b k2))"
  unfolding mul_tiles [OF assms] by (auto split: if_splits)

lemma mul_keys_mem:
  "k \<in> sol_keys (mul a b) \<longleftrightarrow> (\<exists>k1\<in>sol_keys a. \<exists>k2\<in>sol_keys b. k = k1 + k2)"
  by (force simp: mul_keys)

lemma mul_tiles_assoc_left:
  assumes wf: "wf_solution a" "wf_solution b" "wf_solution c"
  shows "t \<in> sol_tiles (mul (mul a b) c) k \<longleftrightarrow>
           (\<exists>k1\<in>sol_keys a. \<exists>k2\<in>sol_keys b. \<exists>k3\<in>sol_keys c. k1 + k2 + k3 = k \<and>
              (t \<in> sol_tiles a k1 \<or> t \<in> sol_tiles b k2 \<or> t \<in> sol_tiles c k3))"
    (is "?L \<longleftrightarrow> ?R")
proof
  assume ?L
  then obtain k12 k3 where k12: "k12 \<in> sol_keys (mul a b)" and k3: "k3 \<in> sol_keys c"
    and sum: "k12 + k3 = k" and t: "t \<in> sol_tiles (mul a b) k12 \<or> t \<in> sol_tiles c k3"
    unfolding mul_tiles_mem [OF mul_wf wf(3)] by blast
  from t show ?R
  proof
    assume "t \<in> sol_tiles (mul a b) k12"
    then obtain k1 k2 where "k1 \<in> sol_keys a" "k2 \<in> sol_keys b" "k1 + k2 = k12"
      "t \<in> sol_tiles a k1 \<or> t \<in> sol_tiles b k2"
      unfolding mul_tiles_mem [OF wf(1,2)] by blast
    with k3 sum show ?R by blast
  next
    assume tc: "t \<in> sol_tiles c k3"
    from k12 obtain k1 k2 where "k1 \<in> sol_keys a" "k2 \<in> sol_keys b" "k12 = k1 + k2"
      unfolding mul_keys_mem by blast
    with k3 sum tc show ?R by blast
  qed
next
  assume ?R
  then obtain k1 k2 k3 where k: "k1 \<in> sol_keys a" "k2 \<in> sol_keys b" "k3 \<in> sol_keys c"
    and sum: "k1 + k2 + k3 = k"
    and t: "t \<in> sol_tiles a k1 \<or> t \<in> sol_tiles b k2 \<or> t \<in> sol_tiles c k3"
    by blast
  have k12: "k1 + k2 \<in> sol_keys (mul a b)" using k(1,2) unfolding mul_keys_mem by blast
  have "t \<in> sol_tiles (mul a b) (k1 + k2) \<or> t \<in> sol_tiles c k3"
    using t k(1,2) unfolding mul_tiles_mem [OF wf(1,2)] by blast
  with k12 k(3) sum show ?L
    unfolding mul_tiles_mem [OF mul_wf wf(3)] by blast
qed

lemma mul_tiles_assoc_right:
  assumes wf: "wf_solution a" "wf_solution b" "wf_solution c"
  shows "t \<in> sol_tiles (mul a (mul b c)) k \<longleftrightarrow>
           (\<exists>k1\<in>sol_keys a. \<exists>k2\<in>sol_keys b. \<exists>k3\<in>sol_keys c. k1 + k2 + k3 = k \<and>
              (t \<in> sol_tiles a k1 \<or> t \<in> sol_tiles b k2 \<or> t \<in> sol_tiles c k3))"
    (is "?L \<longleftrightarrow> ?R")
proof
  assume ?L
  then obtain k1 k23 where k1: "k1 \<in> sol_keys a" and k23: "k23 \<in> sol_keys (mul b c)"
    and sum: "k1 + k23 = k" and t: "t \<in> sol_tiles a k1 \<or> t \<in> sol_tiles (mul b c) k23"
    unfolding mul_tiles_mem [OF wf(1) mul_wf] by blast
  from t show ?R
  proof
    assume ta: "t \<in> sol_tiles a k1"
    from k23 obtain k2 k3 where "k2 \<in> sol_keys b" "k3 \<in> sol_keys c" "k23 = k2 + k3"
      unfolding mul_keys_mem by blast
    with k1 sum ta show ?R by (metis add.assoc)
  next
    assume "t \<in> sol_tiles (mul b c) k23"
    then obtain k2 k3 where "k2 \<in> sol_keys b" "k3 \<in> sol_keys c" "k2 + k3 = k23"
      "t \<in> sol_tiles b k2 \<or> t \<in> sol_tiles c k3"
      unfolding mul_tiles_mem [OF wf(2,3)] by blast
    with k1 sum show ?R by (metis add.assoc)
  qed
next
  assume ?R
  then obtain k1 k2 k3 where k: "k1 \<in> sol_keys a" "k2 \<in> sol_keys b" "k3 \<in> sol_keys c"
    and sum: "k1 + k2 + k3 = k"
    and t: "t \<in> sol_tiles a k1 \<or> t \<in> sol_tiles b k2 \<or> t \<in> sol_tiles c k3"
    by blast
  have k23: "k2 + k3 \<in> sol_keys (mul b c)" using k(2,3) unfolding mul_keys_mem by blast
  have "t \<in> sol_tiles a k1 \<or> t \<in> sol_tiles (mul b c) (k2 + k3)"
    using t k(2,3) unfolding mul_tiles_mem [OF wf(2,3)] by blast
  moreover have "k1 + (k2 + k3) = k" using sum by simp
  ultimately show ?L
    using k23 k(1) unfolding mul_tiles_mem [OF wf(1) mul_wf] by blast
qed

lemma if_add: "(if c then (x::int) + y else 0) = (if c then x else 0) + (if c then y else 0)"
  by simp

lemma mul_keys_closed: "k1 \<in> sol_keys a \<Longrightarrow> k2 \<in> sol_keys b \<Longrightarrow> k1 + k2 \<in> sol_keys (mul a b)"
  by (force simp: mul_keys)

lemma mul_assoc:
  assumes wf: "wf_solution a" "wf_solution b" "wf_solution c"
    and ab: "solution_tiles a \<inter> solution_tiles b = {}"
    and ac: "solution_tiles a \<inter> solution_tiles c = {}"
    and bc: "solution_tiles b \<inter> solution_tiles c = {}"
  shows "sol_map (mul (mul a b) c) = sol_map (mul a (mul b c))"
proof (rule sol_map_eqI)
  note wab = mul_wf [of a b] and wbc = mul_wf [of b c]
  have ab_c: "solution_tiles (mul a b) \<inter> solution_tiles c = {}"
    using solution_tiles_mul [OF wf(1,2)] ac bc by blast
  have a_bc: "solution_tiles a \<inter> solution_tiles (mul b c) = {}"
    using solution_tiles_mul [OF wf(2,3)] ab ac by blast
  show "sol_keys (mul (mul a b) c) = sol_keys (mul a (mul b c))"
    by (force simp: mul_keys image_iff add.assoc)
  show "cnt (mul (mul a b) c) k = cnt (mul a (mul b c)) k" for k
  proof -
    have "cnt (mul (mul a b) c) k =
        (\<Sum>k1\<in>sol_keys a. \<Sum>k2\<in>sol_keys b. \<Sum>k3\<in>sol_keys c.
           if k1 + k2 + k3 = k then cnt a k1 * cnt b k2 * cnt c k3 else 0)"
      unfolding mul_cnt [OF wab wf(3)] mul_cnt [OF wf(1,2)]
      by (rule conv_left) (simp_all add: mul_keys_closed)
    moreover have "cnt (mul a (mul b c)) k =
        (\<Sum>k1\<in>sol_keys a. \<Sum>k2\<in>sol_keys b. \<Sum>k3\<in>sol_keys c.
           if k1 + k2 + k3 = k then cnt a k1 * (cnt b k2 * cnt c k3) else 0)"
      unfolding mul_cnt [OF wf(1) wbc] mul_cnt [OF wf(2,3)]
      by (rule conv_right) (simp_all add: mul_keys_closed)
    ultimately show ?thesis by (simp add: mult.assoc cong: if_cong)
  qed
  show "frq (mul (mul a b) c) k t = frq (mul a (mul b c)) k t" for k t
  proof -
    have "frq (mul (mul a b) c) k t =
        (\<Sum>k12\<in>sol_keys (mul a b). \<Sum>k3\<in>sol_keys c. if k12 + k3 = k
            then (\<Sum>k1\<in>sol_keys a. \<Sum>k2\<in>sol_keys b. if k1 + k2 = k12
                    then frq a k1 t * cnt b k2 + frq b k2 t * cnt a k1 else 0) * cnt c k3 else 0)
        + (\<Sum>k12\<in>sol_keys (mul a b). \<Sum>k3\<in>sol_keys c. if k12 + k3 = k
            then (\<Sum>k1\<in>sol_keys a. \<Sum>k2\<in>sol_keys b. if k1 + k2 = k12
                    then cnt a k1 * cnt b k2 else 0) * frq c k3 t else 0)"
      unfolding mul_frq_disjoint [OF wab wf(3) ab_c] mul_frq_disjoint [OF wf(1,2) ab]
        mul_cnt [OF wf(1,2)] sum.distrib [symmetric]
      by (rule sum.cong [OF refl], rule sum.cong [OF refl]) (simp add: mult.commute)
    also have "\<dots> =
        (\<Sum>k1\<in>sol_keys a. \<Sum>k2\<in>sol_keys b. \<Sum>k3\<in>sol_keys c. if k1 + k2 + k3 = k
            then (frq a k1 t * cnt b k2 + frq b k2 t * cnt a k1) * cnt c k3 else 0)
        + (\<Sum>k1\<in>sol_keys a. \<Sum>k2\<in>sol_keys b. \<Sum>k3\<in>sol_keys c. if k1 + k2 + k3 = k
            then (cnt a k1 * cnt b k2) * frq c k3 t else 0)"
      by (subst conv_left, simp, simp add: mul_keys_closed)
         (subst conv_left, simp, simp add: mul_keys_closed, rule refl)
    also have "\<dots> =
        (\<Sum>k1\<in>sol_keys a. \<Sum>k2\<in>sol_keys b. \<Sum>k3\<in>sol_keys c. if k1 + k2 + k3 = k
            then frq a k1 t * cnt b k2 * cnt c k3 + frq b k2 t * cnt a k1 * cnt c k3
                 + frq c k3 t * cnt a k1 * cnt b k2 else 0)"
      unfolding sum.distrib [symmetric] if_add [symmetric]
      by (simp add: algebra_simps cong: if_cong)
    finally have left: "frq (mul (mul a b) c) k t =
        (\<Sum>k1\<in>sol_keys a. \<Sum>k2\<in>sol_keys b. \<Sum>k3\<in>sol_keys c. if k1 + k2 + k3 = k
            then frq a k1 t * cnt b k2 * cnt c k3 + frq b k2 t * cnt a k1 * cnt c k3
                 + frq c k3 t * cnt a k1 * cnt b k2 else 0)" .
    have "frq (mul a (mul b c)) k t =
        (\<Sum>k1\<in>sol_keys a. \<Sum>k23\<in>sol_keys (mul b c). if k1 + k23 = k
            then frq a k1 t * (\<Sum>k2\<in>sol_keys b. \<Sum>k3\<in>sol_keys c. if k2 + k3 = k23
                    then cnt b k2 * cnt c k3 else 0) else 0)
        + (\<Sum>k1\<in>sol_keys a. \<Sum>k23\<in>sol_keys (mul b c). if k1 + k23 = k
            then cnt a k1 * (\<Sum>k2\<in>sol_keys b. \<Sum>k3\<in>sol_keys c. if k2 + k3 = k23
                    then frq b k2 t * cnt c k3 + frq c k3 t * cnt b k2 else 0) else 0)"
      unfolding mul_frq_disjoint [OF wf(1) wbc a_bc] mul_frq_disjoint [OF wf(2,3) bc]
        mul_cnt [OF wf(2,3)] sum.distrib [symmetric]
      by (rule sum.cong [OF refl], rule sum.cong [OF refl]) (simp add: mult.commute)
    also have "\<dots> =
        (\<Sum>k1\<in>sol_keys a. \<Sum>k2\<in>sol_keys b. \<Sum>k3\<in>sol_keys c. if k1 + k2 + k3 = k
            then frq a k1 t * (cnt b k2 * cnt c k3) else 0)
        + (\<Sum>k1\<in>sol_keys a. \<Sum>k2\<in>sol_keys b. \<Sum>k3\<in>sol_keys c. if k1 + k2 + k3 = k
            then cnt a k1 * (frq b k2 t * cnt c k3 + frq c k3 t * cnt b k2) else 0)"
      by (subst conv_right, simp, simp add: mul_keys_closed)
         (subst conv_right, simp, simp add: mul_keys_closed, rule refl)
    also have "\<dots> =
        (\<Sum>k1\<in>sol_keys a. \<Sum>k2\<in>sol_keys b. \<Sum>k3\<in>sol_keys c. if k1 + k2 + k3 = k
            then frq a k1 t * cnt b k2 * cnt c k3 + frq b k2 t * cnt a k1 * cnt c k3
                 + frq c k3 t * cnt a k1 * cnt b k2 else 0)"
      unfolding sum.distrib [symmetric] if_add [symmetric]
      by (simp add: algebra_simps cong: if_cong)
    finally show ?thesis using left by simp
  qed
  show "sol_tiles (mul (mul a b) c) k = sol_tiles (mul a (mul b c)) k" for k
    using mul_tiles_assoc_left [OF wf] mul_tiles_assoc_right [OF wf] by blast
qed

lemma sum_extend:
  fixes g :: "int \<Rightarrow> int"
  assumes "finite T" and "S \<subseteq> T" and "\<And>i. i \<notin> S \<Longrightarrow> g i = 0"
  shows "sum g S = sum g T"
  using assms by (intro sum.mono_neutral_left) auto

lemma mul_iadd_distrib:
  assumes wf: "wf_solution a" "wf_solution b" "wf_solution c"
    and ab: "solution_tiles a \<inter> solution_tiles b = {}"
    and ac: "solution_tiles a \<inter> solution_tiles c = {}"
  shows "sol_map (mul a (iadd b c)) = sol_map (iadd (mul a b) (mul a c))"
proof (rule sol_map_eqI)
  note wbc = iadd_wf [OF wf(2,3)]
  have a_bc: "solution_tiles a \<inter> solution_tiles (iadd b c) = {}"
    using ab ac by (simp add: solution_tiles_iadd wf Int_Un_distrib)
  have fin: "finite (sol_keys b \<union> sol_keys c)" by simp
  show "sol_keys (mul a (iadd b c)) = sol_keys (iadd (mul a b) (mul a c))"
    by (simp add: mul_keys iadd_keys Sigma_Un_distrib2 image_Un)
  show "cnt (mul a (iadd b c)) k = cnt (iadd (mul a b) (mul a c)) k" for k
  proof -
    have b: "(\<Sum>k2\<in>sol_keys b. if k1 + k2 = k then cnt a k1 * cnt b k2 else 0)
        = (\<Sum>k2\<in>sol_keys b \<union> sol_keys c. if k1 + k2 = k then cnt a k1 * cnt b k2 else 0)" for k1
      by (rule sum_extend) (simp_all add: cnt_notin)
    have c: "(\<Sum>k2\<in>sol_keys c. if k1 + k2 = k then cnt a k1 * cnt c k2 else 0)
        = (\<Sum>k2\<in>sol_keys b \<union> sol_keys c. if k1 + k2 = k then cnt a k1 * cnt c k2 else 0)" for k1
      by (rule sum_extend) (simp_all add: cnt_notin)
    show ?thesis
      unfolding iadd_cnt [OF mul_wf] mul_cnt [OF wf(1) wbc] mul_cnt [OF wf(1,2)] mul_cnt [OF wf(1,3)]
        iadd_keys iadd_cnt [OF wf(3)] b c sum.distrib [symmetric]
      by (rule sum.cong [OF refl], rule sum.cong [OF refl]) (simp add: algebra_simps)
  qed
  show "frq (mul a (iadd b c)) k t = frq (iadd (mul a b) (mul a c)) k t" for k t
  proof -
    have b: "(\<Sum>k2\<in>sol_keys b. if k1 + k2 = k
                then frq a k1 t * cnt b k2 + frq b k2 t * cnt a k1 else 0)
        = (\<Sum>k2\<in>sol_keys b \<union> sol_keys c. if k1 + k2 = k
                then frq a k1 t * cnt b k2 + frq b k2 t * cnt a k1 else 0)" for k1
      by (rule sum_extend) (simp_all add: cnt_notin frq_notin)
    have c: "(\<Sum>k2\<in>sol_keys c. if k1 + k2 = k
                then frq a k1 t * cnt c k2 + frq c k2 t * cnt a k1 else 0)
        = (\<Sum>k2\<in>sol_keys b \<union> sol_keys c. if k1 + k2 = k
                then frq a k1 t * cnt c k2 + frq c k2 t * cnt a k1 else 0)" for k1
      by (rule sum_extend) (simp_all add: cnt_notin frq_notin)
    show ?thesis
      unfolding iadd_frq [OF mul_wf] mul_frq_disjoint [OF wf(1) wbc a_bc]
        mul_frq_disjoint [OF wf(1,2) ab] mul_frq_disjoint [OF wf(1,3) ac]
        iadd_keys iadd_cnt [OF wf(3)] iadd_frq [OF wf(3)] b c sum.distrib [symmetric]
      by (rule sum.cong [OF refl], rule sum.cong [OF refl]) (simp add: algebra_simps)
  qed
  show "sol_tiles (mul a (iadd b c)) k = sol_tiles (iadd (mul a b) (mul a c)) k" for k
  proof (intro set_eqI iffI)
    fix t assume "t \<in> sol_tiles (mul a (iadd b c)) k"
    then obtain k1 k2 where k1: "k1 \<in> sol_keys a" and k2: "k2 \<in> sol_keys b \<union> sol_keys c"
      and sum: "k1 + k2 = k" and t: "t \<in> sol_tiles a k1 \<or> t \<in> sol_tiles b k2 \<or> t \<in> sol_tiles c k2"
      unfolding mul_tiles_mem [OF wf(1) wbc] iadd_keys iadd_tiles [OF wf(3)] by blast
    have "t \<in> sol_tiles b k2 \<Longrightarrow> k2 \<in> sol_keys b" "t \<in> sol_tiles c k2 \<Longrightarrow> k2 \<in> sol_keys c"
      using sol_tiles_notin by fastforce+
    with k1 k2 sum t show "t \<in> sol_tiles (iadd (mul a b) (mul a c)) k"
      unfolding iadd_tiles [OF mul_wf] Un_iff mul_tiles_mem [OF wf(1,2)] mul_tiles_mem [OF wf(1,3)]
      by blast
  next
    fix t assume "t \<in> sol_tiles (iadd (mul a b) (mul a c)) k"
    then show "t \<in> sol_tiles (mul a (iadd b c)) k"
      unfolding iadd_tiles [OF mul_wf] Un_iff mul_tiles_mem [OF wf(1,2)] mul_tiles_mem [OF wf(1,3)]
        mul_tiles_mem [OF wf(1) wbc] iadd_keys iadd_tiles [OF wf(3)]
      by blast
  qed
qed

lemma sol_keys_sol_map: "sol_keys s = dom (sol_map s)"
proof -
  have "dom (sol_map s) = dom (map_of s)" by (auto simp: sol_map_def dom_def)
  then show ?thesis by (simp add: sol_keys_def dom_map_of_conv_image_fst)
qed

lemma entry_sol_map:
  "map_option (\<lambda>(F, N). (map_of F, N)) (Some (entry s k)) =
     (case sol_map s k of None \<Rightarrow> Some (Map.empty, 0) | Some e \<Rightarrow> Some e)"
  by (auto simp: entry_def dict_get_def sol_map_def split: option.splits)

lemma cnt_sol_map: "cnt s k = (case sol_map s k of None \<Rightarrow> 0 | Some (f, N) \<Rightarrow> N)"
  by (auto simp: cnt_def entry_def dict_get_def sol_map_def split: option.splits)

lemma frq_sol_map:
  "frq s k t = (case sol_map s k of None \<Rightarrow> 0
                | Some (f, N) \<Rightarrow> (case f t of None \<Rightarrow> 0 | Some c \<Rightarrow> c))"
  by (auto simp: frq_def entry_def dict_get_def sol_map_def split: option.splits)

lemma sol_tiles_sol_map:
  "sol_tiles s k = (case sol_map s k of None \<Rightarrow> {} | Some (f, N) \<Rightarrow> dom f)"
  by (auto simp: sol_tiles_def entry_def dict_get_def sol_map_def dom_map_of_conv_image_fst
           split: option.splits)

lemma sol_map_determines:
  assumes "sol_map x = sol_map x'"
  shows "sol_keys x = sol_keys x'" and "cnt x k = cnt x' k" and "frq x k t = frq x' k t"
    and "sol_tiles x k = sol_tiles x' k"
  using assms by (simp_all add: sol_keys_sol_map cnt_sol_map frq_sol_map sol_tiles_sol_map)

lemma iadd_cong:
  assumes "wf_solution y" and "sol_map x = sol_map x'"
  shows "sol_map (iadd x y) = sol_map (iadd x' y)"
  using sol_map_determines [OF assms(2)]
  by (intro sol_map_eqI) (simp_all add: iadd_keys iadd_cnt iadd_frq iadd_tiles assms(1))

lemma iadd_cong2:
  assumes "wf_solution y" and "wf_solution y'" and "sol_map y = sol_map y'"
  shows "sol_map (iadd x y) = sol_map (iadd x y')"
  using sol_map_determines [OF assms(3)]
  by (intro sol_map_eqI) (simp_all add: iadd_keys iadd_cnt iadd_frq iadd_tiles assms(1,2))

lemma iadd_mul_distrib:
  assumes wf: "wf_solution a" "wf_solution b" "wf_solution c"
    and ab: "solution_tiles a \<inter> solution_tiles b = {}"
    and ac: "solution_tiles a \<inter> solution_tiles c = {}"
  shows "sol_map (mul (iadd b c) a) = sol_map (iadd (mul b a) (mul c a))"
proof -
  have "solution_tiles (iadd b c) \<inter> solution_tiles a = {}"
    using ab ac by (auto simp: solution_tiles_iadd wf)
  then have "sol_map (mul (iadd b c) a) = sol_map (mul a (iadd b c))"
    by (intro mul_commute iadd_wf wf)
  also have "\<dots> = sol_map (iadd (mul a b) (mul a c))"
    by (rule mul_iadd_distrib [OF wf ab ac])
  also have "\<dots> = sol_map (iadd (mul b a) (mul a c))"
    by (intro iadd_cong mul_wf mul_commute wf ab)
  also have "\<dots> = sol_map (iadd (mul b a) (mul c a))"
    by (intro iadd_cong2 mul_wf mul_commute wf ac)
  finally show ?thesis .
qed

text \<open>
  Claim C7. On Solutions read as maps, \<^verbatim>\<open>__iadd__\<close> is commutative and associative;
  \<^verbatim>\<open>__mul__\<close> has \<open>{0: ({}, 1)}\<close> as identity on both sides and, on Solutions whose tile
  domains are disjoint, is commutative and associative and distributes over \<^verbatim>\<open>__iadd__\<close> on
  both sides.
\<close>

theorem solution_algebra:
  assumes "wf_solution a" and "wf_solution b" and "wf_solution c"
  shows "sol_map (iadd a b) = sol_map (iadd b a)
       \<and> sol_map (iadd (iadd a b) c) = sol_map (iadd a (iadd b c))
       \<and> sol_map (mul [(0, [], 1)] a) = sol_map a
       \<and> sol_map (mul a [(0, [], 1)]) = sol_map a
       \<and> (solution_tiles a \<inter> solution_tiles b = {}
            \<longrightarrow> sol_map (mul a b) = sol_map (mul b a))
       \<and> (solution_tiles a \<inter> solution_tiles b = {} \<and> solution_tiles a \<inter> solution_tiles c = {}
            \<and> solution_tiles b \<inter> solution_tiles c = {}
            \<longrightarrow> sol_map (mul (mul a b) c) = sol_map (mul a (mul b c)))
       \<and> (solution_tiles a \<inter> solution_tiles b = {} \<and> solution_tiles a \<inter> solution_tiles c = {}
            \<longrightarrow> sol_map (mul a (iadd b c)) = sol_map (iadd (mul a b) (mul a c))
                \<and> sol_map (mul (iadd b c) a) = sol_map (iadd (mul b a) (mul c a)))"
proof (intro conjI impI; (elim conjE)?)
  show "sol_map (iadd a b) = sol_map (iadd b a)"
    by (rule iadd_commute [OF assms(1,2)])
  show "sol_map (iadd (iadd a b) c) = sol_map (iadd a (iadd b c))"
    by (rule iadd_assoc [OF assms])
  show "sol_map (mul [(0, [], 1)] a) = sol_map a"
    by (rule mul_identity_left [OF assms(1)])
  show "sol_map (mul a [(0, [], 1)]) = sol_map a"
    by (rule mul_identity_right [OF assms(1)])
  show "sol_map (mul a b) = sol_map (mul b a)" if "solution_tiles a \<inter> solution_tiles b = {}"
    by (rule mul_commute [OF assms(1,2) that])
  show "sol_map (mul (mul a b) c) = sol_map (mul a (mul b c))"
    if "solution_tiles a \<inter> solution_tiles b = {}" "solution_tiles a \<inter> solution_tiles c = {}"
      "solution_tiles b \<inter> solution_tiles c = {}"
    by (rule mul_assoc [OF assms that])
  show "sol_map (mul a (iadd b c)) = sol_map (iadd (mul a b) (mul a c))"
    if "solution_tiles a \<inter> solution_tiles b = {}" "solution_tiles a \<inter> solution_tiles c = {}"
    by (rule mul_iadd_distrib [OF assms that])
  show "sol_map (mul (iadd b c) a) = sol_map (iadd (mul b a) (mul c a))"
    if "solution_tiles a \<inter> solution_tiles b = {}" "solution_tiles a \<inter> solution_tiles c = {}"
    by (rule iadd_mul_distrib [OF assms that])
qed

theorem solution_algebra_witness:
  "wf_solution [(0, [((0, 0), 0)], 1), (1, [((0, 0), 1)], 1)]
   \<and> wf_solution [(0, [((1, 1), 0)], 1), (1, [((1, 1), 1)], 1)]
   \<and> wf_solution [(1, [((2, 2), 1)], 1)]
   \<and> solution_tiles [(0, [((0, 0), 0)], 1), (1, [((0, 0), 1)], 1)]
        \<inter> solution_tiles [(0, [((1, 1), 0)], 1), (1, [((1, 1), 1)], 1)] = {}
   \<and> sol_map (mul [(0, [((0, 0), 0)], 1), (1, [((0, 0), 1)], 1)]
                 [(0, [((1, 1), 0)], 1), (1, [((1, 1), 1)], 1)])
       = sol_map (mul [(0, [((1, 1), 0)], 1), (1, [((1, 1), 1)], 1)]
                   [(0, [((0, 0), 0)], 1), (1, [((0, 0), 1)], 1)])
   \<and> sol_map (mul [(0, [((0, 0), 0)], 1), (1, [((0, 0), 1)], 1)]
                 (iadd [(0, [((1, 1), 0)], 1), (1, [((1, 1), 1)], 1)] [(1, [((2, 2), 1)], 1)]))
       = sol_map (iadd (mul [(0, [((0, 0), 0)], 1), (1, [((0, 0), 1)], 1)]
                          [(0, [((1, 1), 0)], 1), (1, [((1, 1), 1)], 1)])
                       (mul [(0, [((0, 0), 0)], 1), (1, [((0, 0), 1)], 1)] [(1, [((2, 2), 1)], 1)]))"
proof -
  let ?a = "[(0, [((0, 0), 0)], 1), (1, [((0, 0), 1)], 1)] :: Solution"
  let ?b = "[(0, [((1, 1), 0)], 1), (1, [((1, 1), 1)], 1)] :: Solution"
  let ?c = "[(1, [((2, 2), 1)], 1)] :: Solution"
  have wf: "wf_solution ?a" "wf_solution ?b" "wf_solution ?c"
    by (simp_all add: wf_solution_def)
  have d: "solution_tiles ?a \<inter> solution_tiles ?b = {}" "solution_tiles ?a \<inter> solution_tiles ?c = {}"
    "solution_tiles ?b \<inter> solution_tiles ?c = {}"
    by (simp_all add: solution_tiles_def)
  from solution_algebra [OF wf] wf d show ?thesis by simp
qed

end
